(* ===== verification/Prelude.thy ===== *)
theory Prelude
  imports Main "HOL-Library.Word" "HOL-Library.Monad_Syntax"
begin

text \<open>
  Shared vocabulary of the development: machine words and their memory images, the byte-order
  conversions of the C library and of \<open>core/gfs_tools.h\<close>, bounds-checked loads from a byte buffer,
  the decimal conversions of \<open>sprintf\<close>, \<open>atoi\<close> and \<open>atoll\<close>, and the generic lemmas and the fact
  collections that the component theories use.

  The programs are compiled for x86-64: a word in memory is little endian, \<open>int\<close> has 32 bits and
  \<open>long\<close> and pointers have 64. A function whose C original can run into undefined behaviour or abort
  has an \<open>option\<close> result, and \<^term>\<open>None\<close> stands for that outcome; the status codes the C functions
  return are ordinary values.
\<close>

unbundle bit_operations_syntax

named_theorems gfs_simps \<open>unfolding rules of the operations of the name service\<close>
named_theorems wire_simps \<open>loads from and images of structures on the wire\<close>

type_synonym byte = "8 word"
type_synonym u16 = "16 word"
type_synonym u32 = "32 word"
type_synonym u64 = "64 word"
type_synonym addr = nat

abbreviation (input) NULL :: addr where
  "NULL \<equiv> 0"

section \<open>Memory images of words\<close>

definition bytes16 :: "u16 \<Rightarrow> byte list" where
  "bytes16 w = [ucast w, ucast (drop_bit 8 w)]"

definition bytes32 :: "u32 \<Rightarrow> byte list" where
  "bytes32 w = [ucast w, ucast (drop_bit 8 w), ucast (drop_bit 16 w), ucast (drop_bit 24 w)]"

definition bytes64 :: "u64 \<Rightarrow> byte list" where
  "bytes64 w = bytes32 (ucast w) @ bytes32 (ucast (drop_bit 32 w))"

fun of_bytes32 :: "byte list \<Rightarrow> u32" where
  "of_bytes32 [a, b, c, d] =
     ucast a OR push_bit 8 (ucast b) OR push_bit 16 (ucast c) OR push_bit 24 (ucast d)"
| "of_bytes32 _ = 0"

definition of_bytes64 :: "byte list \<Rightarrow> u64" where
  "of_bytes64 bs = ucast (of_bytes32 (take 4 bs)) OR push_bit 32 (ucast (of_bytes32 (drop 4 bs)))"

lemma word_bit_beyond: "LENGTH('a) \<le> n \<Longrightarrow> bit (w :: 'a::len word) n = False"
  by (auto dest: bit_imp_le_length)

lemma length_bytes16 [simp]: "length (bytes16 w) = 2"
  by (simp add: bytes16_def)

lemma length_bytes32 [simp]: "length (bytes32 w) = 4"
  by (simp add: bytes32_def)

lemma length_bytes64 [simp]: "length (bytes64 w) = 8"
  by (simp add: bytes64_def)

lemma of_bytes32_bytes32 [simp]: "of_bytes32 (bytes32 w) = w"
  unfolding bytes32_def of_bytes32.simps
proof (rule bit_word_eqI)
  fix n assume "n < LENGTH(32)"
  then consider "n < 8" | "8 \<le> n" "n < 16" | "16 \<le> n" "n < 24" | "24 \<le> n" "n < 32"
    by fastforce
  then show "bit (ucast (ucast w :: byte) OR push_bit 8 (ucast (ucast (drop_bit 8 w) :: byte))
      OR push_bit 16 (ucast (ucast (drop_bit 16 w) :: byte))
      OR push_bit 24 (ucast (ucast (drop_bit 24 w) :: byte)) :: u32) n = bit w n"
    by cases (auto simp: bit_simps)
qed

lemma bytes32_of_bytes32:
  "length bs = 4 \<Longrightarrow> bytes32 (of_bytes32 bs) = bs"
proof -
  assume "length bs = 4"
  then obtain a b c d where bs: "bs = [a, b, c, d]"
    by (auto simp: numeral_eq_Suc length_Suc_conv)
  show ?thesis
    unfolding bs bytes32_def of_bytes32.simps
    by (auto intro!: bit_word_eqI simp: bit_simps word_bit_beyond)
qed

lemma of_bytes64_bytes64 [simp]: "of_bytes64 (bytes64 w) = w"
  unfolding bytes64_def of_bytes64_def
  by (simp, rule bit_word_eqI) (auto simp: bit_simps)

section \<open>Network byte order\<close>

text \<open>
  \<open>htonl\<close> and \<open>ntohl\<close> reverse the bytes of a 32-bit word. \<open>ntohll\<close> and \<open>htonll\<close> of
  \<open>gfs_tools.h\<close> have one and the same body: each half is converted and the halves are exchanged.
\<close>

definition htonl :: "u32 \<Rightarrow> u32" where
  "htonl w = of_bytes32 (rev (bytes32 w))"

abbreviation ntohl :: "u32 \<Rightarrow> u32" where
  "ntohl \<equiv> htonl"

definition htonll :: "u64 \<Rightarrow> u64" where
  "htonll v =
     push_bit 32 (ucast (htonl (ucast (drop_bit 32 (push_bit 32 v)))))
     OR ucast (htonl (ucast (drop_bit 32 v)))"

abbreviation ntohll :: "u64 \<Rightarrow> u64" where
  "ntohll \<equiv> htonll"

lemma bytes32_htonl [simp]: "bytes32 (htonl w) = rev (bytes32 w)"
  by (simp add: htonl_def bytes32_of_bytes32)

lemma htonl_htonl [simp]: "htonl (htonl w) = w"
  by (simp add: htonl_def bytes32_of_bytes32)

lemma htonl_eq_iff [simp]: "htonl v = htonl w \<longleftrightarrow> v = w"
  by (metis htonl_htonl)

lemma htonl_0 [simp]: "htonl 0 = 0"
  by (simp add: htonl_def bytes32_def)

lemma htonl_eq_0 [simp]: "htonl w = 0 \<longleftrightarrow> w = 0"
  by (metis htonl_0 htonl_htonl)

lemma ucast_lo_halves:
  "ucast (push_bit 32 (ucast a :: u64) OR ucast b) = (b :: u32)"
  by (rule bit_word_eqI) (auto simp: bit_simps)

lemma ucast_hi_halves:
  "ucast (drop_bit 32 (push_bit 32 (ucast a :: u64) OR ucast (b :: u32))) = (a :: u32)"
  by (rule bit_word_eqI) (auto simp: bit_simps word_bit_beyond)

lemma ucast_low_word: "ucast (drop_bit 32 (push_bit 32 v)) = (ucast (v :: u64) :: u32)"
  by (rule bit_word_eqI) (auto simp: bit_simps)

lemma bytes64_htonll [simp]: "bytes64 (htonll w) = rev (bytes64 w)"
  unfolding bytes64_def htonll_def
  by (simp only: ucast_lo_halves ucast_hi_halves ucast_low_word bytes32_htonl rev_append)

lemma bytes64_inject [simp]: "bytes64 v = bytes64 w \<longleftrightarrow> v = w"
  by (metis of_bytes64_bytes64)

lemma bytes32_inject [simp]: "bytes32 v = bytes32 w \<longleftrightarrow> v = w"
  by (metis of_bytes32_bytes32)

lemma htonll_htonll [simp]: "htonll (htonll w) = w"
proof -
  have "bytes64 (htonll (htonll w)) = bytes64 w" by simp
  then show ?thesis by (simp only: bytes64_inject)
qed

lemma htonll_0 [simp]: "htonll 0 = 0"
  by (simp add: htonll_def)

section \<open>Loads from a buffer\<close>

text \<open>
  A read through a cast pointer, with the bound of the underlying object written out: reading past
  the last byte is undefined.
\<close>

definition ldbytes :: "nat \<Rightarrow> byte list \<Rightarrow> nat \<Rightarrow> byte list option" where
  "ldbytes n bs i = (if i + n \<le> length bs then Some (take n (drop i bs)) else None)"

definition ld32 :: "byte list \<Rightarrow> nat \<Rightarrow> u32 option" where
  "ld32 bs i = map_option of_bytes32 (ldbytes 4 bs i)"

definition ld64 :: "byte list \<Rightarrow> nat \<Rightarrow> u64 option" where
  "ld64 bs i = map_option of_bytes64 (ldbytes 8 bs i)"

lemma ldbytes_append1 [wire_simps]:
  "i + n \<le> length xs \<Longrightarrow> ldbytes n (xs @ ys) i = ldbytes n xs i"
  by (simp add: ldbytes_def)

lemma ldbytes_append2 [wire_simps]:
  "length xs \<le> i \<Longrightarrow> ldbytes n (xs @ ys) i = ldbytes n ys (i - length xs)"
  by (auto simp: ldbytes_def)

lemma ldbytes_all [wire_simps]: "n = length xs \<Longrightarrow> ldbytes n xs 0 = Some xs"
  by (simp add: ldbytes_def)

lemma ldbytes_Some: "i + n \<le> length bs \<Longrightarrow> ldbytes n bs i = Some (take n (drop i bs))"
  by (simp add: ldbytes_def)

lemma ld32_append1 [wire_simps]: "i + 4 \<le> length xs \<Longrightarrow> ld32 (xs @ ys) i = ld32 xs i"
  by (simp add: ld32_def wire_simps)

lemma ld32_append2 [wire_simps]:
  "length xs \<le> i \<Longrightarrow> ld32 (xs @ ys) i = ld32 ys (i - length xs)"
  by (simp add: ld32_def wire_simps)

lemma ld32_bytes32 [wire_simps]: "ld32 (bytes32 w) 0 = Some w"
  by (simp add: ld32_def wire_simps)

lemma ld32_rev_bytes32 [wire_simps]: "ld32 (rev (bytes32 w)) 0 = Some (htonl w)"
  by (simp add: ld32_def wire_simps htonl_def)

lemma ld32_Some: "i + 4 \<le> length bs \<Longrightarrow> \<exists>w. ld32 bs i = Some w"
  by (simp add: ld32_def ldbytes_def)

lemma ld32_None: "length bs < i + 4 \<Longrightarrow> ld32 bs i = None"
  by (simp add: ld32_def ldbytes_def)

lemma ld64_append1 [wire_simps]: "i + 8 \<le> length xs \<Longrightarrow> ld64 (xs @ ys) i = ld64 xs i"
  by (simp add: ld64_def wire_simps)

lemma ld64_append2 [wire_simps]:
  "length xs \<le> i \<Longrightarrow> ld64 (xs @ ys) i = ld64 ys (i - length xs)"
  by (simp add: ld64_def wire_simps)

lemma ld64_bytes64 [wire_simps]: "ld64 (bytes64 w) 0 = Some w"
  by (simp add: ld64_def wire_simps)

lemma ld64_rev_bytes64 [wire_simps]: "ld64 (rev (bytes64 w)) 0 = Some (htonll w)"
proof -
  have "rev (bytes64 w) = bytes64 (htonll w)" by simp
  then show ?thesis by (simp only: ld64_bytes64)
qed

lemma ld64_Some: "i + 8 \<le> length bs \<Longrightarrow> \<exists>w. ld64 bs i = Some w"
  by (simp add: ld64_def ldbytes_def)

section \<open>Decimal conversions of the C library\<close>

definition digit_char :: "nat \<Rightarrow> char" where
  "digit_char d = char_of (48 + d)"

fun dec_nat :: "nat \<Rightarrow> string" where
  "dec_nat n = (if n < 10 then [digit_char n] else dec_nat (n div 10) @ [digit_char (n mod 10)])"

declare dec_nat.simps [simp del]

text \<open>The conversions \<open>%u\<close> and \<open>%llu\<close> print \<^const>\<open>dec_nat\<close>, the conversion \<open>%d\<close> prints \<open>dec_int\<close>.\<close>

definition dec_int :: "int \<Rightarrow> string" where
  "dec_int i = (if i < 0 then CHR ''-'' # dec_nat (nat (- i)) else dec_nat (nat i))"

definition char_code :: "char \<Rightarrow> nat" where
  "char_code c = of_char c"

definition is_digit :: "char \<Rightarrow> bool" where
  "is_digit c \<longleftrightarrow> 48 \<le> char_code c \<and> char_code c \<le> 57"

definition is_space :: "char \<Rightarrow> bool" where
  "is_space c \<longleftrightarrow> char_code c = 32 \<or> 9 \<le> char_code c \<and> char_code c \<le> 13"

definition digits_val :: "string \<Rightarrow> nat" where
  "digits_val s = foldl (\<lambda>a c. 10 * a + (char_code c - 48)) 0 (takeWhile is_digit s)"

definition strtoll :: "string \<Rightarrow> int" where
  "strtoll s =
     (let t = dropWhile is_space s;
          v = (case t of
                 [] \<Rightarrow> 0
               | c # r \<Rightarrow> if c = CHR ''-'' then - int (digits_val r)
                          else if c = CHR ''+'' then int (digits_val r) else int (digits_val t))
      in max (- (2 ^ 63)) (min (2 ^ 63 - 1) v))"

text \<open>\<open>atoi\<close> is \<open>(int) strtol\<close> and \<open>atoll\<close> is \<open>strtoll\<close> in the C library the program links.\<close>

definition atoi :: "string \<Rightarrow> u32" where
  "atoi s = word_of_int (strtoll s)"

definition atoll :: "string \<Rightarrow> u64" where
  "atoll s = word_of_int (strtoll s)"

lemma char_code_digit [simp]: "d < 10 \<Longrightarrow> char_code (digit_char d) = 48 + d"
  by (simp add: char_code_def digit_char_def)

lemma is_digit_digit [simp]: "d < 10 \<Longrightarrow> is_digit (digit_char d)"
  by (simp add: is_digit_def)

lemma dec_nat_digits: "c \<in> set (dec_nat n) \<Longrightarrow> is_digit c"
proof (induction n rule: dec_nat.induct)
  case (1 n)
  then show ?case
    by (cases "n < 10") (auto simp: dec_nat.simps [of n])
qed

lemma dec_nat_nonempty [simp]: "dec_nat n \<noteq> []"
  by (subst dec_nat.simps) simp

lemma digits_val_dec_nat [simp]: "digits_val (dec_nat n) = n"
proof -
  have "takeWhile is_digit (dec_nat n) = dec_nat n"
    by (simp add: takeWhile_eq_all_conv dec_nat_digits)
  moreover have "foldl (\<lambda>a c. 10 * a + (char_code c - 48)) 0 (dec_nat n) = n"
  proof (induction n rule: dec_nat.induct)
    case (1 n)
    then show ?case
      by (cases "n < 10") (auto simp: dec_nat.simps [of n])
  qed
  ultimately show ?thesis by (simp only: digits_val_def)
qed

lemma digit_not_special:
  assumes "is_digit c" shows "\<not> is_space c" and "c \<noteq> CHR ''-''" and "c \<noteq> CHR ''+''"
  using assms by (auto simp: is_digit_def is_space_def char_code_def)

lemma strtoll_dec_nat: "strtoll (dec_nat n) = min (2 ^ 63 - 1) (int n)"
proof -
  obtain c r where cr: "dec_nat n = c # r" by (cases "dec_nat n") auto
  then have c: "is_digit c" using dec_nat_digits [of c n] by simp
  then have "dropWhile is_space (dec_nat n) = c # r"
    by (simp add: cr digit_not_special)
  then show ?thesis
    using digits_val_dec_nat [of n] c
    by (simp add: strtoll_def digit_not_special cr)
qed

lemma atoi_dec_nat: "n < 2 ^ 63 \<Longrightarrow> atoi (dec_nat n) = of_nat n"
  by (simp add: atoi_def strtoll_dec_nat)

lemma atoll_dec_nat: "n < 2 ^ 63 \<Longrightarrow> atoll (dec_nat n) = of_nat n"
  by (simp add: atoll_def strtoll_dec_nat)

lemma length_dec_nat_le: "n < 10 ^ k \<Longrightarrow> 0 < k \<Longrightarrow> length (dec_nat n) \<le> k"
proof (induction k arbitrary: n)
  case 0
  then show ?case by simp
next
  case (Suc k)
  show ?case
  proof (cases "n < 10")
    case True
    then show ?thesis by (simp add: dec_nat.simps [of n])
  next
    case False
    then have k: "0 < k" using Suc.prems by (cases k) auto
    have "n div 10 < 10 ^ k" using Suc.prems(1) by (simp add: less_mult_imp_div_less mult.commute)
    then show ?thesis using Suc.IH k False by (simp add: dec_nat.simps [of n])
  qed
qed

lemma length_dec_nat_ge: "10 ^ k \<le> n \<Longrightarrow> Suc k \<le> length (dec_nat n)"
proof (induction k arbitrary: n)
  case 0
  then show ?case by (cases "dec_nat n") auto
next
  case (Suc k)
  then have "10 ^ k \<le> n div 10" by (simp add: less_eq_div_iff_mult_less_eq mult.commute)
  moreover have "\<not> n < 10"
  proof -
    have "10 \<le> (10 :: nat) ^ Suc k" by simp
    then show ?thesis using Suc.prems by linarith
  qed
  ultimately show ?case using Suc.IH [of "n div 10"] by (simp add: dec_nat.simps [of n])
qed

lemma unat_u32_less: "unat (w :: u32) < 2 ^ 32"
  using unsigned_less [where 'a = nat, of w] by simp

lemma unat_u64_less: "unat (w :: u64) < 2 ^ 64"
  using unsigned_less [where 'a = nat, of w] by simp

lemma length_dec_u32: "length (dec_nat (unat (w :: u32))) \<le> 10"
  by (rule length_dec_nat_le) (use unat_u32_less [of w] in simp_all)

lemma length_dec_u64: "length (dec_nat (unat (w :: u64))) \<le> 20"
  by (rule length_dec_nat_le) (use unat_u64_less [of w] in simp_all)

lemma length_dec_i32: "length (dec_int (sint (w :: u32))) \<le> 11"
proof -
  have "- (2 ^ 31) \<le> sint w" and "sint w < 2 ^ 31"
    using sint_ge [of w] sint_lt [of w] by simp_all
  then have "nat (- sint w) < 10 ^ 10" and "nat (sint w) < 10 ^ 10" by simp_all
  then show ?thesis
    using length_dec_nat_le [of "nat (- sint w)" 10] length_dec_nat_le [of "nat (sint w)" 10]
    by (simp add: dec_int_def)
qed

lemma unat_of_nat_u32: "n < 2 ^ 32 \<Longrightarrow> unat (of_nat n :: u32) = n"
  by (simp add: unat_of_nat take_bit_nat_eq_self)

lemma drop_prefix: "drop (length xs) (xs @ ys) = ys"
  by simp

end
