(* ===== verification/Config.thy ===== *)
theory Config
  imports Prelude
begin

text \<open>
  The constants of \<open>core/gfs_config.h\<close> and \<open>sql/gfs_sql.h\<close> that the modelled functions use: status
  codes returned between the modules, the return codes put on the wire, and the capacities.
\<close>

section \<open>Status codes\<close>

definition GFS_OK :: int where "GFS_OK = 0"
definition GFS_ERR :: int where "GFS_ERR = 1"
definition GFS_PARAM_FUN_ERR :: int where "GFS_PARAM_FUN_ERR = 2"
definition GFS_EVENT_NOTIMER_ERR :: int where "GFS_EVENT_NOTIMER_ERR = 132"
definition GFS_NET_CLOSE :: int where "GFS_NET_CLOSE = 140"
definition GFS_NET_AGAIN :: int where "GFS_NET_AGAIN = 141"
definition GFS_NET_OUTOF_MEMORY :: int where "GFS_NET_OUTOF_MEMORY = 142"
definition GFS_BUSI_ERR :: int where "GFS_BUSI_ERR = 150"

section \<open>Return codes on the wire\<close>

definition GFS_BUSI_RTN_OK :: u32 where "GFS_BUSI_RTN_OK = 0"
definition GFS_BUSI_RTN_SYS_ERR :: u32 where "GFS_BUSI_RTN_SYS_ERR = 1"
definition GFS_BUSI_RTN_MSG_FORMAT_ERR :: u32 where "GFS_BUSI_RTN_MSG_FORMAT_ERR = 6"
definition GFS_BUSI_RTN_UNKNOWN_CLIENT :: u32 where "GFS_BUSI_RTN_UNKNOWN_CLIENT = 7"
definition GFS_BUSI_RTN_NO_DS_USE :: u32 where "GFS_BUSI_RTN_NO_DS_USE = 11"
definition GFS_BUSI_RTN_BLOCK_EXIST :: u32 where "GFS_BUSI_RTN_BLOCK_EXIST = 12"
definition GFS_BUSI_RTN_FILE_FINISHED :: u32 where "GFS_BUSI_RTN_FILE_FINISHED = 13"
definition GFS_BUSI_RTN_FILE_NOT_EXIST :: u32 where "GFS_BUSI_RTN_FILE_NOT_EXIST = 20"
definition GFS_BUSI_RTN_BLOCK_NOT_EXIST :: u32 where "GFS_BUSI_RTN_BLOCK_NOT_EXIST = 21"
definition GFS_BUSI_RTN_BLOCK_TOO_MUCH :: u32 where "GFS_BUSI_RTN_BLOCK_TOO_MUCH = 30"

definition GFS_CLIENT_TYPE_PS :: u32 where "GFS_CLIENT_TYPE_PS = 0"
definition GFS_CLIENT_TYPE_DS :: u32 where "GFS_CLIENT_TYPE_DS = 1"

section \<open>Capacities and time limits\<close>

definition GFS_NET_DS_MAPS :: nat where "GFS_NET_DS_MAPS = 1024"
definition GFS_NET_BUFFER_SIZE :: nat where "GFS_NET_BUFFER_SIZE = 4096"
definition GFS_CONN_TIMEOUT_MS :: u64 where "GFS_CONN_TIMEOUT_MS = 180000"

section \<open>Status codes of the SQL layer\<close>

definition SQL_OK :: int where "SQL_OK = 0"
definition SQL_EMPTY :: int where "SQL_EMPTY = -1"
definition SQL_ARGS_ERR :: int where "SQL_ARGS_ERR = 1"
definition SQL_QUERY_ERR :: int where "SQL_QUERY_ERR = 2"
definition SQL_FETCH_ERR :: int where "SQL_FETCH_ERR = 3"
definition SQL_POOL_ERR :: int where "SQL_POOL_ERR = 4"
definition SQL_INSERT_EXISTS :: int where "SQL_INSERT_EXISTS = 5"
definition SQL_ERROR :: int where "SQL_ERROR = 6"
definition SQL_FILE_NOT_EXIST :: int where "SQL_FILE_NOT_EXIST = 20"
definition SQL_FILE_EXIT_COMPLETE :: u32 where "SQL_FILE_EXIT_COMPLETE = 13"
definition SQL_BLOCK_NOT_EXIST :: int where "SQL_BLOCK_NOT_EXIST = 21"
definition SQL_BLOCK_EXIST :: u32 where "SQL_BLOCK_EXIST = 12"

lemmas status_defs =
  GFS_OK_def GFS_ERR_def GFS_PARAM_FUN_ERR_def GFS_EVENT_NOTIMER_ERR_def GFS_NET_CLOSE_def
  GFS_NET_AGAIN_def GFS_NET_OUTOF_MEMORY_def GFS_BUSI_ERR_def

lemmas rtn_defs =
  GFS_BUSI_RTN_OK_def GFS_BUSI_RTN_SYS_ERR_def GFS_BUSI_RTN_MSG_FORMAT_ERR_def
  GFS_BUSI_RTN_UNKNOWN_CLIENT_def GFS_BUSI_RTN_NO_DS_USE_def GFS_BUSI_RTN_BLOCK_EXIST_def
  GFS_BUSI_RTN_FILE_FINISHED_def GFS_BUSI_RTN_FILE_NOT_EXIST_def
  GFS_BUSI_RTN_BLOCK_NOT_EXIST_def GFS_BUSI_RTN_BLOCK_TOO_MUCH_def
  GFS_CLIENT_TYPE_PS_def GFS_CLIENT_TYPE_DS_def

lemmas sql_status_defs =
  SQL_OK_def SQL_EMPTY_def SQL_ARGS_ERR_def SQL_QUERY_ERR_def SQL_FETCH_ERR_def SQL_POOL_ERR_def
  SQL_INSERT_EXISTS_def SQL_ERROR_def SQL_FILE_NOT_EXIST_def SQL_FILE_EXIT_COMPLETE_def
  SQL_BLOCK_NOT_EXIST_def SQL_BLOCK_EXIST_def

end
