(* ===== verification/Net_buf.thy ===== *)
theory Net_buf
  imports Config
begin

text \<open>
  The network buffers of \<open>net/gfs_net.h\<close> and the two functions of \<open>net/gfs_net.c\<close> that work on a
  buffer alone: the packet scanner \<open>gfs_net_packet_parse_tcp\<close> and the copy between two buffers
  \<open>gfs_net_memcopy\<close>. The bytes of a buffer are a list of the allocated size; a load or a copy that
  leaves the allocation has the result \<^term>\<open>None\<close>. Positions are natural numbers: a buffer has at
  most 4096 bytes, so that no sum of the code reaches the width of its \<open>gfs_uint32\<close> fields.
\<close>

section \<open>Buffers\<close>

record gfs_net_buf =
  nb_data :: "byte list"
  nb_len :: nat
  nb_pos :: nat
  nb_hd :: nat

definition buf_ok :: "gfs_net_buf \<Rightarrow> bool" where
  "buf_ok b \<longleftrightarrow> nb_hd b \<le> nb_pos b \<and> nb_pos b \<le> nb_len b \<and> nb_len b \<le> length (nb_data b)"

text \<open>The bytes a buffer holds, between \<open>hd\<close> and \<open>pos\<close>.\<close>

definition buf_bytes :: "gfs_net_buf \<Rightarrow> byte list" where
  "buf_bytes b = drop (nb_hd b) (take (nb_pos b) (nb_data b))"

lemma length_buf_bytes: "buf_ok b \<Longrightarrow> length (buf_bytes b) = nb_pos b - nb_hd b"
  by (simp add: buf_ok_def buf_bytes_def)

section \<open>Scanning for a packet\<close>

text \<open>
  The state of the loop of \<open>gfs_net_packet_parse_tcp\<close> is \<open>rtn\<close>: \<open>pdata\<close> is always \<open>rtn\<close> bytes after
  the place \<open>pu\<close> points to, and \<open>pu\<close> is not advanced by the loop. The result is the offset and the
  length of the packet (\<open>*packet\<close>, \<open>*plen\<close>), if any, and the returned number of consumed bytes.
\<close>

function packet_scan :: "gfs_net_buf \<Rightarrow> nat \<Rightarrow> ((nat \<times> nat) option \<times> int) option" where
  "packet_scan buf rtn =
     (if nb_hd buf + rtn < nb_pos buf then do {
        pu0 \<leftarrow> ld32 (nb_data buf) (nb_hd buf);
        pu2 \<leftarrow> ld32 (nb_data buf) (nb_hd buf + 8);
        let len = unat (ntohl pu0);
        let size = nb_pos buf - nb_hd buf;
        if len > 2048 \<or> len < 16 then packet_scan buf (rtn + 1)
        else if rtn + len > size then
          (if nb_pos buf < nb_len buf then packet_scan buf (rtn + 1)
           else if nb_pos buf = nb_len buf then Some (None, int rtn)
           else Some (None, int (nb_pos buf) - int (nb_hd buf)))
        else do {
          sprt \<leftarrow> ld32 (nb_data buf) (nb_hd buf + rtn + len - 4);
          if ntohl sprt \<noteq> 0 then packet_scan buf (rtn + 1)
          else Some (Some (nb_hd buf + rtn, len), int (rtn + len))
        }
      }
      else Some (None, int (nb_pos buf) - int (nb_hd buf)))"
  by pat_completeness auto

termination
  by (relation "measure (\<lambda>(buf, rtn). nb_pos buf - (nb_hd buf + rtn))") auto

declare packet_scan.simps [simp del]

definition gfs_net_packet_parse_tcp :: "gfs_net_buf \<Rightarrow> ((nat \<times> nat) option \<times> int) option" where
  "gfs_net_packet_parse_tcp buf = packet_scan buf 0"

section \<open>Copying between buffers\<close>

text \<open>
  \<open>gfs_net_memcopy (dst, src)\<close> for two non-null buffers: a negative amount is converted to a huge
  \<open>size_t\<close> by \<open>memcpy\<close>, and a copy outside either allocation is undefined.
\<close>

definition gfs_net_memcopy :: "gfs_net_buf \<Rightarrow> gfs_net_buf \<Rightarrow> (gfs_net_buf \<times> gfs_net_buf) option" where
  "gfs_net_memcopy dst src =
     (let remain = int (nb_len dst) - int (nb_pos dst);
          copylen = int (nb_pos src) - int (nb_hd src);
          remain = (if remain > copylen then copylen else remain)
      in if remain < 0 then None
         else do {
           let n = nat remain;
           bs \<leftarrow> ldbytes n (nb_data src) (nb_hd src);
           if nb_pos dst + n > length (nb_data dst) then None
           else Some (dst\<lparr>nb_data := take (nb_pos dst) (nb_data dst) @ bs @ drop (nb_pos dst + n) (nb_data dst),
                          nb_pos := nb_pos dst + n\<rparr>,
                      src\<lparr>nb_hd := nb_hd src + n\<rparr>)
         })"

text \<open>
  The compaction the readers and writers of a buffer end with: \<open>memmove\<close> the unread bytes to the
  front.
\<close>

definition compact :: "gfs_net_buf \<Rightarrow> gfs_net_buf option" where
  "compact b =
     (if nb_pos b < nb_hd b then None
      else do {
        bs \<leftarrow> ldbytes (nb_pos b - nb_hd b) (nb_data b) (nb_hd b);
        Some (b\<lparr>nb_data := bs @ drop (length bs) (nb_data b), nb_pos := nb_pos b - nb_hd b, nb_hd := 0\<rparr>)
      })"

section \<open>What the scanner returns\<close>

text \<open>A packet on the wire: the first word is its length and the last word is zero.\<close>

definition well_formed :: "byte list \<Rightarrow> bool" where
  "well_formed p \<longleftrightarrow> 16 \<le> length p \<and> length p \<le> 2048
     \<and> take 4 p = rev (bytes32 (of_nat (length p))) \<and> drop (length p - 4) p = [0, 0, 0, 0]"

lemma ld32_take_drop:
  "i + 4 \<le> length bs \<Longrightarrow> take 4 (drop i bs) = bytes32 w \<Longrightarrow> ld32 bs i = Some w"
  by (simp add: ld32_def ldbytes_def)

lemma ld32_mono: "i + 4 \<le> length bs \<Longrightarrow> ld32 bs i = Some (of_bytes32 (take 4 (drop i bs)))"
  by (simp add: ld32_def ldbytes_def)

text \<open>The branches of one round of the scan, for a buffer whose first word announces \<open>len\<close> bytes.\<close>

lemma packet_scan_end: "nb_pos b \<le> nb_hd b + rtn \<Longrightarrow> packet_scan b rtn = Some (None, int (nb_pos b) - int (nb_hd b))"
  by (subst packet_scan.simps) simp

lemma packet_scan_head_None:
  "nb_hd b + rtn < nb_pos b \<Longrightarrow> length (nb_data b) < nb_hd b + 12 \<Longrightarrow> packet_scan b rtn = None"
  by (subst packet_scan.simps) (auto simp: ld32_None bind_eq_None_conv)

lemma packet_scan_bad_len:
  assumes "nb_hd b + rtn < nb_pos b" and "nb_hd b + 12 \<le> length (nb_data b)"
    and "ld32 (nb_data b) (nb_hd b) = Some w" and "unat (ntohl w) = len" and "2048 < len \<or> len < 16"
  shows "packet_scan b rtn = packet_scan b (rtn + 1)"
  using assms by (subst packet_scan.simps) (auto simp: ld32_mono Let_def)

lemma packet_scan_beyond:
  assumes "nb_hd b + rtn < nb_pos b" and "nb_hd b + 12 \<le> length (nb_data b)"
    and "ld32 (nb_data b) (nb_hd b) = Some w" and "unat (ntohl w) = len" and "16 \<le> len" "len \<le> 2048"
    and "nb_pos b - nb_hd b < rtn + len" and "nb_pos b \<le> nb_len b"
  shows "packet_scan b rtn = (if nb_pos b < nb_len b then packet_scan b (rtn + 1) else Some (None, int rtn))"
  using assms by (subst packet_scan.simps) (auto simp: ld32_mono Let_def)

lemma packet_scan_fits:
  assumes "nb_hd b + rtn < nb_pos b" and "nb_hd b + 12 \<le> length (nb_data b)"
    and "ld32 (nb_data b) (nb_hd b) = Some w" and "unat (ntohl w) = len" and "16 \<le> len" "len \<le> 2048"
    and "rtn + len \<le> nb_pos b - nb_hd b" and "ld32 (nb_data b) (nb_hd b + rtn + len - 4) = Some z"
  shows "packet_scan b rtn = (if z \<noteq> 0 then packet_scan b (rtn + 1)
    else Some (Some (nb_hd b + rtn, len), int (rtn + len)))"
  using assms by (subst packet_scan.simps) (simp add: ld32_mono Let_def)

definition scan_safe :: "gfs_net_buf \<Rightarrow> (nat \<times> nat) option \<times> int \<Rightarrow> bool" where
  "scan_safe b = (\<lambda>(p, r). 0 \<le> r \<and> r \<le> int (nb_pos b - nb_hd b) \<and>
     (case p of None \<Rightarrow> True
      | Some (off, n) \<Rightarrow> nb_hd b \<le> off \<and> off + n \<le> nb_pos b \<and> 16 \<le> n \<and> n \<le> 2048 \<and> r = int (off + n - nb_hd b)))"

lemma packet_scan_safe:
  assumes "buf_ok b" and "nb_hd b + rtn \<le> nb_pos b" and "nb_hd b + 12 \<le> nb_len b"
  shows "\<exists>q. packet_scan b rtn = Some q \<and> scan_safe b q"
  using assms
proof (induction "nb_pos b - (nb_hd b + rtn)" arbitrary: rtn)
  case 0
  then show ?case by (simp add: packet_scan_end scan_safe_def buf_ok_def)
next
  case (Suc k)
  then have rtn: "nb_hd b + rtn < nb_pos b" and l: "nb_hd b + 12 \<le> length (nb_data b)"
    and pl: "nb_pos b \<le> nb_len b" "nb_len b \<le> length (nb_data b)"
    by (auto simp: buf_ok_def)
  have IH: "\<exists>q. packet_scan b (rtn + 1) = Some q \<and> scan_safe b q" using Suc by auto
  obtain w where w: "ld32 (nb_data b) (nb_hd b) = Some w" using l ld32_Some [of "nb_hd b" "nb_data b"] by auto
  obtain len where len: "unat (ntohl w) = len" by simp
  consider "2048 < len \<or> len < 16" | "16 \<le> len" "len \<le> 2048" "nb_pos b - nb_hd b < rtn + len"
    | "16 \<le> len" "len \<le> 2048" "rtn + len \<le> nb_pos b - nb_hd b"
    by linarith
  then show ?case
  proof cases
    case 1
    then show ?thesis using packet_scan_bad_len [OF rtn l w len] IH by auto
  next
    case 2
    then show ?thesis using packet_scan_beyond [OF rtn l w len 2 pl(1)] IH rtn by (auto simp: scan_safe_def)
  next
    case 3
    have "nb_hd b + rtn + len - 4 + 4 \<le> length (nb_data b)" using 3 pl rtn by linarith
    then obtain z where "ld32 (nb_data b) (nb_hd b + rtn + len - 4) = Some z"
      using ld32_Some by blast
    then show ?thesis using packet_scan_fits [OF rtn l w len 3] IH rtn 3 by (auto simp: scan_safe_def)
  qed
qed

lemma packet_scan_drop:
  assumes "buf_ok b" and "nb_hd b + rtn \<le> nb_pos b" and "nb_hd b + 12 \<le> nb_len b" and "nb_pos b < nb_len b"
    and "ld32 (nb_data b) (nb_hd b) = Some w" and "nb_pos b - nb_hd b < unat (ntohl w)"
  shows "packet_scan b rtn = Some (None, int (nb_pos b - nb_hd b))"
  using assms(2)
proof (induction "nb_pos b - (nb_hd b + rtn)" arbitrary: rtn)
  case 0
  then show ?case by (simp add: packet_scan_end)
next
  case (Suc k)
  then have rtn: "nb_hd b + rtn < nb_pos b" by auto
  have l: "nb_hd b + 12 \<le> length (nb_data b)" and pl: "nb_pos b \<le> nb_len b" using assms by (auto simp: buf_ok_def)
  have IH: "packet_scan b (rtn + 1) = Some (None, int (nb_pos b - nb_hd b))" using Suc by auto
  show ?case
  proof (cases "2048 < unat (ntohl w) \<or> unat (ntohl w) < 16")
    case True
    then show ?thesis using packet_scan_bad_len [OF rtn l assms(5) refl] IH by auto
  next
    case False
    then show ?thesis using packet_scan_beyond [OF rtn l assms(5) refl _ _ _ pl] IH assms(4,6) by auto
  qed
qed

lemma buf_bytes_prefix:
  assumes "buf_ok b" and "buf_bytes b = p @ rest"
  shows "nb_hd b + length p \<le> nb_pos b" and "nb_hd b + length p \<le> length (nb_data b)"
    and "i + n \<le> length p \<Longrightarrow> take n (drop (nb_hd b + i) (nb_data b)) = take n (drop i p)"
proof -
  have "length p \<le> nb_pos b - nb_hd b" using length_buf_bytes [OF assms(1)] assms(2) by simp
  then show le: "nb_hd b + length p \<le> nb_pos b" and "nb_hd b + length p \<le> length (nb_data b)"
    using assms(1) by (auto simp: buf_ok_def)
  assume i: "i + n \<le> length p"
  have "take n (drop i (take (nb_pos b - nb_hd b) (drop (nb_hd b) (nb_data b)))) = take n (drop i p)"
    using assms(2) i by (simp add: buf_bytes_def drop_take)
  then show "take n (drop (nb_hd b + i) (nb_data b)) = take n (drop i p)"
    using i le by (simp add: drop_take add.commute min_def split: if_splits)
qed

lemma parse_well_formed:
  assumes "buf_ok b" and "well_formed p" and "buf_bytes b = p @ rest"
  shows "gfs_net_packet_parse_tcp b = Some (Some (nb_hd b, length p), int (length p))"
proof -
  note pre = buf_bytes_prefix [OF assms(1,3)]
  have l: "16 \<le> length p" "length p \<le> 2048" using assms(2) by (auto simp: well_formed_def)
  have "ld32 (nb_data b) (nb_hd b) = Some (of_bytes32 (take 4 p))"
    using pre(3) [of 0 4] pre(2) l by (simp add: ld32_mono)
  then have w: "ld32 (nb_data b) (nb_hd b) = Some (htonl (of_nat (length p)))"
    using assms(2) by (simp add: well_formed_def htonl_def)
  have "take 4 (drop (nb_hd b + (length p - 4)) (nb_data b)) = [0, 0, 0, 0]"
    using pre(3) [of "length p - 4" 4] assms(2) l by (simp add: well_formed_def)
  moreover have "nb_hd b + (length p - 4) = nb_hd b + 0 + length p - 4" using l by simp
  ultimately have z: "ld32 (nb_data b) (nb_hd b + 0 + length p - 4) = Some 0"
    using pre(2) l by (simp add: ld32_mono)
  have len: "unat (ntohl (htonl (of_nat (length p)))) = length p"
    using l by (simp add: unat_of_nat take_bit_nat_eq_self)
  show ?thesis
    unfolding gfs_net_packet_parse_tcp_def
    by (subst packet_scan_fits [OF _ _ w len l _ z]) (use pre(1,2) l in simp_all)
qed

section \<open>Lemmas on the copy\<close>

lemma memcopy_spec:
  assumes "buf_ok dst" and "buf_ok src"
  obtains n where "n = min (nb_len dst - nb_pos dst) (nb_pos src - nb_hd src)"
    and "gfs_net_memcopy dst src =
      Some (dst\<lparr>nb_data := take (nb_pos dst) (nb_data dst) @ take n (drop (nb_hd src) (nb_data src))
                  @ drop (nb_pos dst + n) (nb_data dst),
                nb_pos := nb_pos dst + n\<rparr>,
            src\<lparr>nb_hd := nb_hd src + n\<rparr>)"
proof
  let ?n = "min (nb_len dst - nb_pos dst) (nb_pos src - nb_hd src)"
  have "ldbytes ?n (nb_data src) (nb_hd src) = Some (take ?n (drop (nb_hd src) (nb_data src)))"
    using assms by (intro ldbytes_Some) (auto simp: buf_ok_def)
  moreover have "(if int (nb_len dst) - int (nb_pos dst) > int (nb_pos src) - int (nb_hd src)
      then int (nb_pos src) - int (nb_hd src) else int (nb_len dst) - int (nb_pos dst)) = int ?n"
    using assms by (auto simp: buf_ok_def min_def)
  ultimately show "gfs_net_memcopy dst src =
      Some (dst\<lparr>nb_data := take (nb_pos dst) (nb_data dst) @ take ?n (drop (nb_hd src) (nb_data src))
                  @ drop (nb_pos dst + ?n) (nb_data dst),
                nb_pos := nb_pos dst + ?n\<rparr>,
            src\<lparr>nb_hd := nb_hd src + ?n\<rparr>)"
    using assms by (auto simp add: gfs_net_memcopy_def Let_def buf_ok_def simp del: of_nat_min)
qed simp

lemma memcopy_bytes:
  assumes "buf_ok dst" and "buf_ok src" and "gfs_net_memcopy dst src = Some (dst', src')"
  shows "buf_ok dst' \<and> buf_ok src' \<and> nb_len dst' = nb_len dst \<and> nb_hd dst' = nb_hd dst
    \<and> buf_bytes dst' @ buf_bytes src' = buf_bytes dst @ buf_bytes src
    \<and> length (buf_bytes src') = (nb_pos src - nb_hd src) - (nb_len dst - nb_pos dst)"
proof -
  obtain n where n: "n = min (nb_len dst - nb_pos dst) (nb_pos src - nb_hd src)"
    and eq: "gfs_net_memcopy dst src =
      Some (dst\<lparr>nb_data := take (nb_pos dst) (nb_data dst) @ take n (drop (nb_hd src) (nb_data src))
                  @ drop (nb_pos dst + n) (nb_data dst),
                nb_pos := nb_pos dst + n\<rparr>,
            src\<lparr>nb_hd := nb_hd src + n\<rparr>)"
    using memcopy_spec [OF assms(1,2)] .
  have hp: "nb_hd dst \<le> nb_pos dst" "nb_pos dst + n \<le> nb_len dst" "nb_hd src + n \<le> nb_pos src"
      "nb_pos src \<le> length (nb_data src)" "nb_pos dst + n \<le> length (nb_data dst)"
    using assms n by (auto simp: buf_ok_def)
  have "take n (drop (nb_hd src) (nb_data src)) @ drop (nb_hd src + n) (take (nb_pos src) (nb_data src))
      = drop (nb_hd src) (take (nb_pos src) (nb_data src))"
    using append_take_drop_id [of n "drop (nb_hd src) (take (nb_pos src) (nb_data src))"] hp
    by (simp add: drop_take add.commute min_def split: if_splits)
  moreover have d: "dst' = dst\<lparr>nb_data := take (nb_pos dst) (nb_data dst) @ take n (drop (nb_hd src) (nb_data src))
                  @ drop (nb_pos dst + n) (nb_data dst), nb_pos := nb_pos dst + n\<rparr>"
    and s: "src' = src\<lparr>nb_hd := nb_hd src + n\<rparr>"
    using assms(3) eq by auto
  moreover have ok: "buf_ok dst'" "buf_ok src'" using assms hp by (auto simp: d s buf_ok_def)
  moreover have "buf_bytes dst' = buf_bytes dst @ take n (drop (nb_hd src) (nb_data src))"
    using hp by (simp add: d buf_bytes_def)
  moreover have "buf_bytes src' = drop (nb_hd src + n) (take (nb_pos src) (nb_data src))"
    by (simp add: s buf_bytes_def)
  moreover have "length (buf_bytes src') = (nb_pos src - nb_hd src) - (nb_len dst - nb_pos dst)"
    using n hp length_buf_bytes [OF ok(2)] by (auto simp: s min_def split: if_splits)
  ultimately show ?thesis by (simp add: buf_bytes_def)
qed

lemma compact_bytes:
  assumes "buf_ok b"
  obtains b' where "compact b = Some b'" and "buf_ok b'" and "nb_hd b' = 0" and "nb_len b' = nb_len b"
    and "buf_bytes b' = buf_bytes b" and "nb_pos b' = length (buf_bytes b)"
proof -
  let ?bs = "take (nb_pos b - nb_hd b) (drop (nb_hd b) (nb_data b))"
  have l: "ldbytes (nb_pos b - nb_hd b) (nb_data b) (nb_hd b) = Some ?bs"
    using assms by (intro ldbytes_Some) (auto simp: buf_ok_def)
  have "compact b = Some (b\<lparr>nb_data := ?bs @ drop (nb_pos b - nb_hd b) (nb_data b),
      nb_pos := nb_pos b - nb_hd b, nb_hd := 0\<rparr>)"
    using assms l by (auto simp: compact_def buf_ok_def)
  then show ?thesis
    by (rule that) (use assms in \<open>auto simp: buf_ok_def buf_bytes_def drop_take\<close>)
qed

section \<open>Properties\<close>

text \<open>
  C7: when the unread bytes of a buffer begin with a well-formed packet, the scanner returns
  exactly that packet and its length, and asks for exactly its bytes to be consumed.
\<close>

theorem parse_first_packet:
  assumes "buf_ok b" and "well_formed p" and "buf_bytes b = p @ rest"
  shows "\<exists>off. gfs_net_packet_parse_tcp b = Some (Some (off, length p), int (length p))
    \<and> ldbytes (length p) (nb_data b) off = Some p"
proof -
  have "ldbytes (length p) (nb_data b) (nb_hd b) = Some p"
    using buf_bytes_prefix(2) [OF assms(1,3)] buf_bytes_prefix(3) [OF assms(1,3), of 0 "length p"]
    by (simp add: ldbytes_def)
  then show ?thesis using parse_well_formed [OF assms] by blast
qed

definition sample_packet :: "byte list" where
  "sample_packet = [0, 0, 0, 16, 0, 0, 0, 7, 0, 0, 0, 9, 0, 0, 0, 0]"

definition sample_buf :: "byte list \<Rightarrow> gfs_net_buf" where
  "sample_buf bs = \<lparr>nb_data = [1, 2] @ bs @ [3, 4, 5, 6, 7, 8, 9, 10, 11, 12], nb_len = length bs + 12,
     nb_pos = length bs + 2, nb_hd = 2\<rparr>"

lemma sample_packet_ok: "well_formed sample_packet"
  by (simp add: well_formed_def sample_packet_def bytes32_def)

lemma sample_buf_ok: "buf_ok (sample_buf bs)" "buf_bytes (sample_buf bs) = bs"
  by (simp_all add: sample_buf_def buf_ok_def buf_bytes_def)

theorem parse_first_packet_witness:
  "\<exists>off. gfs_net_packet_parse_tcp (sample_buf (sample_packet @ [1, 2, 3])) = Some (Some (off, 16), 16)
    \<and> ldbytes 16 (nb_data (sample_buf (sample_packet @ [1, 2, 3]))) off = Some sample_packet"
proof -
  have "length sample_packet = 16" by (simp add: sample_packet_def)
  then show ?thesis
    using parse_first_packet [OF sample_buf_ok(1) sample_packet_ok sample_buf_ok(2) [of "sample_packet @ [1, 2, 3]"]] by simp
qed

text \<open>
  C25: on a buffer with at least twelve bytes behind its head the scanner ends and reads only inside
  the buffer; the packet it returns lies between the head and the end of the received bytes, it is 16 to
  2048 bytes long, and the number of consumed bytes is that of the bytes up to the end of the packet and
  never more than there are.
\<close>

theorem scan_in_bounds:
  assumes "buf_ok b" and "nb_hd b + 12 \<le> nb_len b"
  shows "\<exists>p r. gfs_net_packet_parse_tcp b = Some (p, r) \<and> 0 \<le> r \<and> r \<le> int (nb_pos b - nb_hd b)
    \<and> (\<forall>off n. p = Some (off, n) \<longrightarrow> nb_hd b \<le> off \<and> off + n \<le> nb_pos b \<and> 16 \<le> n \<and> n \<le> 2048
        \<and> r = int (off + n - nb_hd b))"
proof -
  have "nb_hd b + 0 \<le> nb_pos b" using assms(1) by (simp add: buf_ok_def)
  from packet_scan_safe [OF assms(1) this assms(2)] show ?thesis
    by (auto simp: gfs_net_packet_parse_tcp_def scan_safe_def)
qed

theorem scan_in_bounds_witness:
  "\<exists>p r. gfs_net_packet_parse_tcp (sample_buf [255, 1, 1, 1, 1, 1, 1, 1, 1]) = Some (p, r) \<and> 0 \<le> r \<and> r \<le> 9"
  using scan_in_bounds [OF sample_buf_ok(1) [of "[255, 1, 1, 1, 1, 1, 1, 1, 1]"]] by (auto simp: sample_buf_def)



text \<open>
  C24: \<open>gfs_net_memcopy\<close> between two buffers stays inside both, keeps both well formed, and moves the
  longest prefix of the source that fits: the destination followed by the rest of the source is the same
  byte sequence as before, and the rest is empty exactly when there was enough room.
\<close>

theorem memcopy_moves:
  assumes "buf_ok dst" and "buf_ok src"
  shows "\<exists>dst' src'. gfs_net_memcopy dst src = Some (dst', src') \<and> buf_ok dst' \<and> buf_ok src'
    \<and> buf_bytes dst' @ buf_bytes src' = buf_bytes dst @ buf_bytes src
    \<and> length (buf_bytes src') = length (buf_bytes src) - (nb_len dst - nb_pos dst)"
proof -
  obtain dst' src' where m: "gfs_net_memcopy dst src = Some (dst', src')" using memcopy_spec [OF assms] by metis
  then show ?thesis using memcopy_bytes [OF assms m] length_buf_bytes [OF assms(2)] by auto
qed

theorem memcopy_moves_witness:
  "\<exists>dst' src'. gfs_net_memcopy (sample_buf [1, 2]) (sample_buf sample_packet) = Some (dst', src')
    \<and> buf_bytes dst' @ buf_bytes src' = [1, 2] @ sample_packet \<and> length (buf_bytes src') = 6"
proof -
  have "length sample_packet = 16" by (simp add: sample_packet_def)
  then show ?thesis
    using memcopy_moves [OF sample_buf_ok(1) [of "[1, 2]"] sample_buf_ok(1) [of sample_packet]]
    by (auto simp: sample_buf_ok(2)) (auto simp: sample_buf_def)
qed

end
