(* ===== verification/Queue.thy ===== *)
theory Queue
  imports Config "HOL-Library.Multiset"
begin

text \<open>
  \<open>core/gfs_queue.h\<close> and \<open>core/gfs_queue.c\<close>: circular doubly linked lists whose links are embedded in
  the elements. The links live in a store that maps the address of a \<open>gfs_queue_t\<close> to its two
  pointers; every macro is the sequence of its assignments. \<open>GFS_DEBUG\<close> is not defined in the build,
  so \<open>gfs_queue_remove\<close> leaves the pointers of the removed element alone.

  The abstraction predicate \<open>queue_at\<close> relates the store to the list of the elements; each operation
  is proved to act on that list, the sort to be the stable sort of the library.
\<close>

section \<open>The link store and the macros\<close>

record qstore =
  q_prev :: "addr \<Rightarrow> addr"
  q_next :: "addr \<Rightarrow> addr"

definition set_prev :: "addr \<Rightarrow> addr \<Rightarrow> qstore \<Rightarrow> qstore" where
  "set_prev x v s = s\<lparr>q_prev := (q_prev s)(x := v)\<rparr>"

definition set_next :: "addr \<Rightarrow> addr \<Rightarrow> qstore \<Rightarrow> qstore" where
  "set_next x v s = s\<lparr>q_next := (q_next s)(x := v)\<rparr>"

definition gfs_queue_init :: "addr \<Rightarrow> qstore \<Rightarrow> qstore" where
  "gfs_queue_init q s = set_next q q (set_prev q q s)"

definition gfs_queue_empty :: "qstore \<Rightarrow> addr \<Rightarrow> bool" where
  "gfs_queue_empty s h \<longleftrightarrow> h = q_prev s h"

definition gfs_queue_insert_head :: "addr \<Rightarrow> addr \<Rightarrow> qstore \<Rightarrow> qstore" where
  "gfs_queue_insert_head h x s =
     (let s = set_next x (q_next s h) s;
          s = set_prev (q_next s x) x s;
          s = set_prev x h s;
          s = set_next h x s
      in s)"

definition gfs_queue_insert_tail :: "addr \<Rightarrow> addr \<Rightarrow> qstore \<Rightarrow> qstore" where
  "gfs_queue_insert_tail h x s =
     (let s = set_prev x (q_prev s h) s;
          s = set_next (q_prev s x) x s;
          s = set_next x h s;
          s = set_prev h x s
      in s)"

definition gfs_queue_remove :: "addr \<Rightarrow> qstore \<Rightarrow> qstore" where
  "gfs_queue_remove x s =
     (let s = set_prev (q_next s x) (q_prev s x) s;
          s = set_next (q_prev s x) (q_next s x) s
      in s)"

definition gfs_queue_split :: "addr \<Rightarrow> addr \<Rightarrow> addr \<Rightarrow> qstore \<Rightarrow> qstore" where
  "gfs_queue_split h q n s =
     (let s = set_prev n (q_prev s h) s;
          s = set_next (q_prev s n) n s;
          s = set_next n q s;
          s = set_prev h (q_prev s q) s;
          s = set_next (q_prev s h) h s;
          s = set_prev q n s
      in s)"

definition gfs_queue_add :: "addr \<Rightarrow> addr \<Rightarrow> qstore \<Rightarrow> qstore" where
  "gfs_queue_add h n s =
     (let s = set_next (q_prev s h) (q_next s n) s;
          s = set_prev (q_next s n) (q_prev s h) s;
          s = set_prev h (q_prev s n) s;
          s = set_next (q_prev s h) h s
      in s)"

section \<open>gfs\_queue\_middle and gfs\_queue\_sort\<close>

text \<open>A pointer loop has no bound of its own, so the loops are partial functions; \<open>None\<close> is a loop
  that does not end.\<close>

partial_function (option) middle_loop :: "qstore \<Rightarrow> addr \<Rightarrow> addr \<Rightarrow> addr \<Rightarrow> addr option" where
  [code]: "middle_loop s queue middle nxt =
     (let middle = q_next s middle; nxt = q_next s nxt in
      if nxt = q_prev s queue then Some middle
      else let nxt = q_next s nxt in
        if nxt = q_prev s queue then Some middle
        else middle_loop s queue middle nxt)"

definition gfs_queue_middle :: "qstore \<Rightarrow> addr \<Rightarrow> addr option" where
  "gfs_queue_middle s queue =
     (let middle = q_next s queue in
      if middle = q_prev s queue then Some middle
      else middle_loop s queue middle (q_next s queue))"

partial_function (option) sort_find ::
  "(addr \<Rightarrow> addr \<Rightarrow> int) \<Rightarrow> qstore \<Rightarrow> addr \<Rightarrow> addr \<Rightarrow> addr \<Rightarrow> addr option" where
  [code]: "sort_find cmp s queue q prev =
     (if cmp prev q \<le> 0 then Some prev
      else let prev = q_prev s prev in
        if prev \<noteq> queue then sort_find cmp s queue q prev else Some prev)"

partial_function (option) sort_loop ::
  "(addr \<Rightarrow> addr \<Rightarrow> int) \<Rightarrow> addr \<Rightarrow> addr \<Rightarrow> qstore \<Rightarrow> qstore option" where
  [code]: "sort_loop cmp queue q s =
     (if q = queue then Some s
      else do {
        let prev = q_prev s q;
        let nxt = q_next s q;
        let s = gfs_queue_remove q s;
        prev \<leftarrow> sort_find cmp s queue q prev;
        sort_loop cmp queue nxt (gfs_queue_insert_head prev q s)
      })"

definition gfs_queue_sort :: "(addr \<Rightarrow> addr \<Rightarrow> int) \<Rightarrow> addr \<Rightarrow> qstore \<Rightarrow> qstore option" where
  "gfs_queue_sort cmp queue s =
     (let q = q_next s queue in
      if q = q_prev s queue then Some s
      else sort_loop cmp queue (q_next s q) s)"

section \<open>The list a queue holds\<close>

fun linked :: "qstore \<Rightarrow> addr list \<Rightarrow> bool" where
  "linked s [] \<longleftrightarrow> True"
| "linked s [x] \<longleftrightarrow> True"
| "linked s (x # y # zs) \<longleftrightarrow> q_next s x = y \<and> q_prev s y = x \<and> linked s (y # zs)"

definition queue_at :: "qstore \<Rightarrow> addr \<Rightarrow> addr list \<Rightarrow> bool" where
  "queue_at s h xs \<longleftrightarrow> distinct (h # xs) \<and> linked s (h # xs @ [h])"

lemma set_prev_simps [simp]:
  "q_prev (set_prev x v s) = (q_prev s)(x := v)"
  "q_next (set_prev x v s) = q_next s"
  by (simp_all add: set_prev_def)

lemma set_next_simps [simp]:
  "q_next (set_next x v s) = (q_next s)(x := v)"
  "q_prev (set_next x v s) = q_prev s"
  by (simp_all add: set_next_def)

lemma linked_append:
  "xs \<noteq> [] \<Longrightarrow> ys \<noteq> [] \<Longrightarrow>
   linked s (xs @ ys) \<longleftrightarrow>
     linked s xs \<and> linked s ys \<and> q_next s (last xs) = hd ys \<and> q_prev s (hd ys) = last xs"
  by (induction s xs rule: linked.induct) (auto simp: neq_Nil_conv)

lemma linked_frame:
  "linked s xs \<Longrightarrow> (\<And>a. a \<in> set (butlast xs) \<Longrightarrow> q_next t a = q_next s a) \<Longrightarrow>
   (\<And>a. a \<in> set (tl xs) \<Longrightarrow> q_prev t a = q_prev s a) \<Longrightarrow> linked t xs"
  by (induction s xs rule: linked.induct) (auto split: if_splits)

lemma queue_at_split:
  "queue_at s h (as @ bs) \<longleftrightarrow>
     distinct (h # as @ bs) \<and> linked s (h # as) \<and> linked s (bs @ [h]) \<and>
     q_next s (last (h # as)) = hd (bs @ [h]) \<and> q_prev s (hd (bs @ [h])) = last (h # as)"
  using linked_append [of "h # as" "bs @ [h]" s]
  by (auto simp: queue_at_def)

lemma queue_at_head: "queue_at s h xs \<Longrightarrow> q_next s h = hd (xs @ [h])"
  using queue_at_split [of s h "[]" xs] by simp

lemma queue_at_last: "queue_at s h xs \<Longrightarrow> q_prev s h = last (h # xs)"
  using queue_at_split [of s h xs "[]"] by simp

lemma queue_at_next: "queue_at s h (as @ x # bs) \<Longrightarrow> q_next s x = hd (bs @ [h])"
  using queue_at_split [of s h "as @ [x]" bs] by simp

lemma queue_at_prev: "queue_at s h (as @ x # bs) \<Longrightarrow> q_prev s x = last (h # as)"
  using queue_at_split [of s h as "x # bs"] by simp

lemma queue_at_init: "queue_at (gfs_queue_init h s) h []"
  by (simp add: queue_at_def gfs_queue_init_def)

lemma queue_at_empty: "queue_at s h xs \<Longrightarrow> gfs_queue_empty s h \<longleftrightarrow> xs = []"
  by (auto simp: gfs_queue_empty_def queue_at_last queue_at_def)

section \<open>The operations on the list\<close>

lemma last_notin_butlast: "distinct xs \<Longrightarrow> xs \<noteq> [] \<Longrightarrow> last xs \<notin> set (butlast xs)"
  by (induction xs) auto

lemma hd_notin_tl: "distinct xs \<Longrightarrow> xs \<noteq> [] \<Longrightarrow> hd xs \<notin> set (tl xs)"
  by (cases xs) auto

lemma linked_Cons:
  "xs \<noteq> [] \<Longrightarrow> linked s (x # xs) \<longleftrightarrow> q_next s x = hd xs \<and> q_prev s (hd xs) = x \<and> linked s xs"
  by (cases xs) auto

text \<open>
  A store that agrees with \<open>s\<close> except for the successor of the last and the predecessor of the first
  element of a chain keeps the chain.
\<close>

lemma linked_ends:
  assumes "linked s xs" and "distinct xs" and "xs \<noteq> []"
    and "\<And>a. a \<in> set xs \<Longrightarrow> a \<noteq> last xs \<Longrightarrow> q_next t a = q_next s a"
    and "\<And>a. a \<in> set xs \<Longrightarrow> a \<noteq> hd xs \<Longrightarrow> q_prev t a = q_prev s a"
  shows "linked t xs"
proof (rule linked_frame [OF assms(1)])
  fix a assume "a \<in> set (butlast xs)"
  then show "q_next t a = q_next s a"
    using assms(4) last_notin_butlast [OF assms(2,3)] by (auto dest: in_set_butlastD)
next
  fix a assume "a \<in> set (tl xs)"
  then show "q_prev t a = q_prev s a"
    using assms(5) hd_notin_tl [OF assms(2,3)] assms(3) by (auto dest: list.set_sel(2))
qed

lemma queue_at_insert_after:
  assumes q: "queue_at s h (as @ bs)" and x: "x \<notin> set (h # as @ bs)" and p: "p = last (h # as)"
  shows "queue_at (gfs_queue_insert_head p x s) h (as @ x # bs)"
proof -
  define t n where "t = gfs_queue_insert_head p x s" and n: "n = hd (bs @ [h])"
  have d: "distinct (h # as @ bs)" and l1: "linked s (h # as)" and l2: "linked s (bs @ [h])"
    and nx: "q_next s p = n"
    using q by (auto simp: queue_at_split n p)
  have pin: "p \<in> set (h # as)" unfolding p by (rule last_in_set) simp
  have nin: "n \<in> set (bs @ [h])" unfolding n by (rule hd_in_set) simp
  have tn: "q_next t = (q_next s)(x := n, p := x)" and tp: "q_prev t = (q_prev s)(n := x, x := p)"
    using x pin nin nx by (auto simp: t_def gfs_queue_insert_head_def Let_def)
  have "linked t (h # as)"
    by (rule linked_ends [OF l1, folded p]) (use d x nin in \<open>auto simp: tn tp\<close>)
  moreover have "linked t (bs @ [h])"
    by (rule linked_ends [OF l2, folded n]) (use d x pin in \<open>auto simp: tn tp\<close>)
  moreover have "q_next t x = n" "q_prev t n = x" "q_next t p = x" "q_prev t x = p"
    using x pin nin by (auto simp: tn tp)
  ultimately have "queue_at t h (as @ x # bs)"
    using d x by (simp add: queue_at_split linked_Cons n p del: last.simps)
  then show ?thesis by (simp only: t_def)
qed

lemma queue_at_insert_head:
  "queue_at s h xs \<Longrightarrow> x \<notin> set (h # xs) \<Longrightarrow> queue_at (gfs_queue_insert_head h x s) h (x # xs)"
  using queue_at_insert_after [of s h "[]" xs x h] by simp

text \<open>Appending is inserting after the last element.\<close>

lemma insert_tail_eq:
  assumes "queue_at s h xs" and "x \<notin> set (h # xs)"
  shows "gfs_queue_insert_tail h x s = gfs_queue_insert_head (q_prev s h) x s"
proof -
  have p: "q_prev s h = last (h # xs)" using assms by (simp add: queue_at_last)
  have "last (h # xs) \<in> set (h # xs)" by (rule last_in_set) simp
  moreover have "q_next s (last (h # xs)) = h"
    using assms queue_at_split [of s h xs "[]"] by simp
  ultimately show ?thesis
    using assms(2) unfolding gfs_queue_insert_tail_def gfs_queue_insert_head_def Let_def p
    by (intro qstore.equality) (auto simp: fun_eq_iff)
qed

lemma queue_at_insert_tail:
  "queue_at s h xs \<Longrightarrow> x \<notin> set (h # xs) \<Longrightarrow> queue_at (gfs_queue_insert_tail h x s) h (xs @ [x])"
  using queue_at_insert_after [of s h xs "[]" x "q_prev s h"]
  by (simp add: insert_tail_eq queue_at_last)

lemma queue_at_remove:
  assumes q: "queue_at s h (as @ x # bs)"
  shows "queue_at (gfs_queue_remove x s) h (as @ bs)"
proof -
  define t p n where "t = gfs_queue_remove x s" and p: "p = last (h # as)" and n: "n = hd (bs @ [h])"
  have d: "distinct (h # as @ x # bs)" and l1: "linked s (h # as)" and l2: "linked s (x # bs @ [h])"
    and xp: "q_prev s x = p"
    using q by (auto simp: queue_at_split p)
  have xn: "q_next s x = n" and l3: "linked s (bs @ [h])"
    using l2 by (auto simp: linked_Cons n)
  have pin: "p \<in> set (h # as)" unfolding p by (rule last_in_set) simp
  have nin: "n \<in> set (bs @ [h])" unfolding n by (rule hd_in_set) simp
  have tn: "q_next t = (q_next s)(p := n)" and tp: "q_prev t = (q_prev s)(n := p)"
    using d pin nin xp xn by (auto simp: t_def gfs_queue_remove_def Let_def)
  have "linked t (h # as)"
    by (rule linked_ends [OF l1, folded p]) (use d nin in \<open>auto simp: tn tp\<close>)
  moreover have "linked t (bs @ [h])"
    by (rule linked_ends [OF l3, folded n]) (use d pin in \<open>auto simp: tn tp\<close>)
  ultimately have "queue_at t h (as @ bs)"
    using d by (simp add: queue_at_split tn tp n p del: last.simps)
  then show ?thesis by (simp only: t_def)
qed

lemma queue_remove_links:
  assumes "queue_at s h (as @ x # bs)"
  shows "q_next (gfs_queue_remove x s) x = q_next s x"
proof -
  have "x \<noteq> q_prev s x"
    using assms queue_at_prev [OF assms] by (cases as rule: rev_cases) (auto simp: queue_at_def)
  moreover have "q_prev s x \<noteq> x" using calculation by simp
  moreover have "x \<noteq> q_next s x"
    using assms queue_at_next [OF assms] by (cases bs) (auto simp: queue_at_def)
  ultimately show ?thesis by (auto simp: gfs_queue_remove_def Let_def)
qed

lemma queue_at_nth_next:
  assumes "queue_at s h xs" and "Suc i < length xs"
  shows "q_next s (xs ! i) = xs ! Suc i"
proof -
  have "xs = take i xs @ xs ! i # drop (Suc i) xs" using assms(2) by (simp add: id_take_nth_drop)
  then have "q_next s (xs ! i) = hd (drop (Suc i) xs @ [h])"
    using queue_at_next [of s h "take i xs" "xs ! i" "drop (Suc i) xs"] assms(1) by simp
  then show ?thesis using assms(2) by (simp add: hd_append hd_drop_conv_nth)
qed

lemma queue_at_nth_last:
  assumes "queue_at s h xs" and "i < length xs"
  shows "xs ! i = q_prev s h \<longleftrightarrow> Suc i = length xs"
proof -
  have "q_prev s h = xs ! (length xs - 1)"
    using assms queue_at_last [OF assms(1)] by (cases xs) (auto simp: last_conv_nth)
  moreover have "distinct xs" using assms(1) by (simp add: queue_at_def)
  ultimately show ?thesis using assms(2) by (auto simp: nth_eq_iff_index_eq)
qed

lemma middle_loop_correct:
  assumes q: "queue_at s h xs"
  shows "2 * i + 1 < length xs \<Longrightarrow>
    middle_loop s h (xs ! i) (xs ! (2 * i)) = Some (xs ! (length xs div 2))"
proof (induction "length xs - 2 * i" arbitrary: i rule: less_induct)
  case less
  then have i1: "q_next s (xs ! i) = xs ! Suc i" and j1: "q_next s (xs ! (2 * i)) = xs ! Suc (2 * i)"
    using queue_at_nth_next [OF q] by auto
  note unfold = middle_loop.simps [of s h "xs ! i" "xs ! (2 * i)"]
  consider (a) "length xs = 2 * i + 2" | (b) "length xs = 2 * i + 3" | (c) "2 * i + 3 < length xs"
    using less.prems by linarith
  then show ?case
  proof cases
    case a
    then show ?thesis
      using queue_at_nth_last [OF q, of "Suc (2 * i)"] by (simp add: unfold i1 j1 Let_def)
  next
    case b
    then show ?thesis
      using queue_at_nth_last [OF q, of "Suc (2 * i)"] queue_at_nth_last [OF q, of "2 * i + 2"]
        queue_at_nth_next [OF q, of "Suc (2 * i)"]
      by (simp add: unfold i1 j1 Let_def)
  next
    case c
    have "middle_loop s h (xs ! Suc i) (xs ! (2 * Suc i)) = Some (xs ! (length xs div 2))"
      using less.hyps [of "Suc i"] c by simp
    then show ?thesis
      using c queue_at_nth_last [OF q, of "Suc (2 * i)"] queue_at_nth_last [OF q, of "2 * i + 2"]
        queue_at_nth_next [OF q, of "Suc (2 * i)"]
      by (simp add: unfold i1 j1 Let_def)
  qed
qed

section \<open>The sort\<close>

definition keep_le :: "('a \<Rightarrow> 'b::linorder) \<Rightarrow> 'b \<Rightarrow> 'a list \<Rightarrow> 'a list" where
  "keep_le f k us = rev (dropWhile (\<lambda>a. k < f a) (rev us))"

definition rest_gt :: "('a \<Rightarrow> 'b::linorder) \<Rightarrow> 'b \<Rightarrow> 'a list \<Rightarrow> 'a list" where
  "rest_gt f k us = rev (takeWhile (\<lambda>a. k < f a) (rev us))"

lemma keep_rest: "keep_le f k us @ rest_gt f k us = us"
  by (simp add: keep_le_def rest_gt_def flip: rev_append)

lemma keep_le_snoc:
  "keep_le f k (us @ [a]) = (if k < f a then keep_le f k us else us @ [a])"
  by (simp add: keep_le_def)

lemma sort_find_correct:
  assumes cmp: "\<And>a b. cmp a b \<le> 0 \<longleftrightarrow> f a \<le> (f b :: 'k::linorder)"
  shows "us \<noteq> [] \<Longrightarrow> queue_at s h (us @ vs) \<Longrightarrow>
    sort_find cmp s h q (last us) = Some (last (h # keep_le f (f q) us))"
proof (induction us arbitrary: vs rule: rev_induct)
  case Nil
  then show ?case by simp
next
  case (snoc a us)
  have prev: "q_prev s a = last (h # us)"
    using queue_at_prev [of s h us a vs] snoc.prems(2) by simp
  have hus: "us \<noteq> [] \<Longrightarrow> last us \<noteq> h"
    using snoc.prems(2) by (auto simp: queue_at_def)
  show ?case
  proof (cases "f a \<le> f q")
    case True
    then show ?thesis by (simp add: sort_find.simps [of cmp s h q a] cmp keep_le_snoc leD)
  next
    case False
    have "us \<noteq> [] \<Longrightarrow> sort_find cmp s h q (last us) = Some (last (h # keep_le f (f q) us))"
      using snoc.IH [of "a # vs"] snoc.prems(2) by simp
    then show ?thesis
      using False hus prev
      by (cases "us = []") (auto simp: sort_find.simps [of cmp s h q a] cmp keep_le_snoc keep_le_def)
  qed
qed

lemma sorted_keep_le:
  assumes "sorted (map f us)" and "a \<in> set (keep_le f k us)" shows "f a \<le> k"
  using assms
proof (induction us arbitrary: a rule: rev_induct)
  case (snoc x us)
  then show ?case by (auto simp: keep_le_snoc sorted_append split: if_splits)
qed (simp add: keep_le_def)

lemma rest_gt_greater: "a \<in> set (rest_gt f k us) \<Longrightarrow> k < f a"
  by (auto simp: rest_gt_def dest: set_takeWhileD)

lemma sort_key_snoc:
  "sort_key f (us @ [q]) =
     keep_le f (f q) (sort_key f us) @ q # rest_gt f (f q) (sort_key f us)"
proof -
  define vs ks rs where vs: "vs = sort_key f us" and ks: "ks = keep_le f (f q) vs"
    and rs: "rs = rest_gt f (f q) vs"
  have app: "vs = ks @ rs" by (simp add: ks rs keep_rest)
  have srt: "sorted (map f vs)" by (simp add: vs)
  have kle: "\<And>a. a \<in> set ks \<Longrightarrow> f a \<le> f q"
    using sorted_keep_le [OF srt] by (simp add: ks)
  have rgt: "\<And>a. a \<in> set rs \<Longrightarrow> f q < f a" by (simp add: rs rest_gt_greater)
  have stable: "\<And>k. filter (\<lambda>a. f k = f a) us = filter (\<lambda>a. f k = f a) ks @ filter (\<lambda>a. f k = f a) rs"
  proof -
    fix k
    have "(\<lambda>a. f k = f a) = (\<lambda>a. f a = f k)" by auto
    then have "filter (\<lambda>a. f k = f a) vs = filter (\<lambda>a. f k = f a) us"
      using sort_key_stable [of f "f k" us] by (simp only: vs)
    then show "filter (\<lambda>a. f k = f a) us = filter (\<lambda>a. f k = f a) ks @ filter (\<lambda>a. f k = f a) rs"
      by (simp add: app)
  qed
  have rq: "filter (\<lambda>a. f q = f a) rs = []" using rgt by (force simp: filter_empty_conv)
  have "mset us = mset ks + mset rs"
    using mset_sort [of f us] app vs by (metis mset_append)
  moreover have "sorted (map f (ks @ q # rs))"
    using srt kle rgt unfolding app by (force simp: sorted_append)
  moreover have "filter (\<lambda>a. f k = f a) (ks @ q # rs) = filter (\<lambda>a. f k = f a) (us @ [q])" for k
    using rq by (auto simp: stable)
  ultimately have "sort_key f (us @ [q]) = ks @ q # rs"
    by (intro properties_for_sort_key) auto
  then show ?thesis by (simp add: ks rs vs)
qed

lemma sort_loop_correct:
  assumes cmp: "\<And>a b. cmp a b \<le> 0 \<longleftrightarrow> f a \<le> (f b :: 'k::linorder)"
  shows "us \<noteq> [] \<Longrightarrow> queue_at s h (sort_key f us @ zs) \<Longrightarrow>
    \<exists>t. sort_loop cmp h (hd (zs @ [h])) s = Some t \<and> queue_at t h (sort_key f (us @ zs))"
proof (induction zs arbitrary: us s)
  case Nil
  then show ?case by (simp add: sort_loop.simps)
next
  case (Cons q zs)
  define ys where "ys = sort_key f us"
  have "length ys = length us" by (simp add: ys_def)
  then have ys: "ys \<noteq> []" using Cons.prems(1) by auto
  have q: "queue_at s h (ys @ q # zs)" using Cons.prems(2) by (simp add: ys_def)
  then have qh: "q \<noteq> h" and fresh: "q \<notin> set (h # ys @ zs)" by (auto simp: queue_at_def)
  define s1 where "s1 = gfs_queue_remove q s"
  have q1: "queue_at s1 h (ys @ zs)" using queue_at_remove [OF q] by (simp add: s1_def)
  have prev: "q_prev s q = last ys" and nxt: "q_next s q = hd (zs @ [h])"
    using queue_at_prev [OF q] queue_at_next [OF q] ys by auto
  define p where "p = last (h # keep_le f (f q) ys)"
  have find: "sort_find cmp s1 h q (last ys) = Some p"
    using sort_find_correct [of cmp f, OF cmp ys q1] by (simp add: p_def)
  have "queue_at (gfs_queue_insert_head p q s1) h
          (keep_le f (f q) ys @ q # rest_gt f (f q) ys @ zs)"
    by (rule queue_at_insert_after) (use q1 fresh in \<open>auto simp: p_def append_assoc [symmetric]
        keep_rest simp del: append_assoc\<close>)
  then have "queue_at (gfs_queue_insert_head p q s1) h (sort_key f (us @ [q]) @ zs)"
    by (simp add: sort_key_snoc ys_def)
  from Cons.IH [OF _ this] show ?case
    using qh by (simp add: sort_loop.simps [of cmp h q s] prev nxt find flip: s1_def)
qed

lemma queue_sort_correct:
  assumes q: "queue_at s h xs" and cmp: "\<And>a b. cmp a b \<le> 0 \<longleftrightarrow> f a \<le> (f b :: 'k::linorder)"
  shows "\<exists>t. gfs_queue_sort cmp h s = Some t \<and> queue_at t h (sort_key f xs)"
proof (cases xs)
  case Nil
  then show ?thesis
    using q queue_at_head [OF q] queue_at_last [OF q] by (simp add: gfs_queue_sort_def)
next
  case (Cons x zs)
  have head: "q_next s h = x" and last: "q_prev s h = last xs"
    using queue_at_head [OF q] queue_at_last [OF q] Cons by auto
  show ?thesis
  proof (cases zs)
    case Nil
    then show ?thesis using q head last Cons by (simp add: gfs_queue_sort_def)
  next
    case (Cons y ws)
    have "x \<noteq> last xs" using q \<open>xs = x # zs\<close> Cons by (auto simp: queue_at_def)
    moreover have "q_next s x = hd (zs @ [h])"
      using queue_at_next [of s h "[]" x zs] q \<open>xs = x # zs\<close> by simp
    moreover have "\<exists>t. sort_loop cmp h (hd (zs @ [h])) s = Some t \<and> queue_at t h (sort_key f ([x] @ zs))"
      by (rule sort_loop_correct [OF cmp]) (use q \<open>xs = x # zs\<close> in simp_all)
    ultimately show ?thesis
      using head last \<open>xs = x # zs\<close> by (simp add: gfs_queue_sort_def)
  qed
qed

section \<open>Splitting and joining\<close>

lemma queue_at_add:
  assumes q: "queue_at s h xs" and r: "queue_at s n ys" and ne: "ys \<noteq> []"
    and d: "distinct (h # n # xs @ ys)"
  shows "queue_at (gfs_queue_add h n s) h (xs @ ys)"
proof -
  define t a b z where "t = gfs_queue_add h n s" and a: "a = last (h # xs)" and b: "b = hd ys"
    and z: "z = last ys"
  have l1: "linked s (h # xs)" and pa: "q_prev s h = a"
    using q queue_at_split [of s h xs "[]"] by (auto simp: a)
  have l2: "linked s ys"
    using r ne queue_at_split [of s n "[]" ys] linked_append [of ys "[n]" s] by simp
  have nb: "q_next s n = b" and pz: "q_prev s n = z"
    using queue_at_head [OF r] queue_at_last [OF r] ne by (auto simp: b z)
  have ain: "a \<in> set (h # xs)" unfolding a by (rule last_in_set) simp
  have bin: "b \<in> set ys" "z \<in> set ys" using ne by (auto simp: b z)
  have tn: "q_next t = (q_next s)(a := b, z := h)" and tp: "q_prev t = (q_prev s)(b := a, h := z)"
    using d ain bin pa nb pz by (auto simp: t_def gfs_queue_add_def Let_def)
  have "linked t (h # xs)"
    by (rule linked_ends [OF l1, folded a]) (use d bin in \<open>auto simp: tn tp\<close>)
  moreover have "linked t ys"
    by (rule linked_ends [OF l2, folded b z]) (use d ain ne in \<open>auto simp: tn tp\<close>)
  moreover have "q_next t a = b" "q_prev t b = a" "q_next t z = h" "q_prev t h = z"
    using d ain bin by (auto simp: tn tp)
  ultimately have "queue_at t h (xs @ ys)"
    using d ne by (simp add: queue_at_split linked_append a b z hd_append del: last.simps)
  then show ?thesis by (simp only: t_def)
qed

lemma queue_at_queue_split:
  assumes q: "queue_at s h (xs @ x # ys)" and n: "n \<notin> set (h # xs @ x # ys)"
  shows "queue_at (gfs_queue_split h x n s) h xs \<and> queue_at (gfs_queue_split h x n s) n (x # ys)"
proof -
  define t a z where "t = gfs_queue_split h x n s" and a: "a = last (h # xs)" and z: "z = last (x # ys)"
  have d: "distinct (h # xs @ x # ys)" and l1: "linked s (h # xs)" and l2: "linked s (x # ys)"
    using q linked_append [of "x # ys" "[h]" s] by (auto simp: queue_at_split)
  have px: "q_prev s x = a" and ph: "q_prev s h = z"
    using queue_at_prev [OF q] queue_at_last [OF q] by (auto simp: a z)
  have ain: "a \<in> set (h # xs)" unfolding a by (rule last_in_set) simp
  have zin: "z \<in> set (x # ys)" unfolding z by (rule last_in_set) simp
  have tn: "q_next t = (q_next s)(z := n, n := x, a := h)"
    and tp: "q_prev t = (q_prev s)(n := z, h := a, x := n)"
    using d n ain zin px ph by (auto simp: t_def gfs_queue_split_def Let_def)
  have "linked t (h # xs)"
    by (rule linked_ends [OF l1, folded a]) (use d n zin in \<open>auto simp: tn tp\<close>)
  moreover have "linked t (x # ys)"
    by (rule linked_ends [OF l2, folded z]) (use d n ain in \<open>auto simp: tn tp\<close>)
  moreover have "q_next t a = h" "q_prev t h = a" "q_next t n = x" "q_prev t x = n"
      "q_next t z = n" "q_prev t n = z"
    using d n ain zin by (auto simp: tn tp)
  ultimately have "queue_at t h xs" and "queue_at t n (x # ys)"
    using d n queue_at_split [of t h xs "[]"] queue_at_split [of t n "x # ys" "[]"]
    by (simp_all add: a z linked_Cons last_ConsR del: last.simps)
  then show ?thesis by (simp only: t_def)
qed

section \<open>Walking a queue\<close>

text \<open>The loop \<open>for (q = head; q != sentinel; q = next)\<close>, as the list of the nodes it visits.\<close>

partial_function (option) queue_walk :: "qstore \<Rightarrow> addr \<Rightarrow> addr \<Rightarrow> addr list option" where
  [code]: "queue_walk s h q =
     (if q = h then Some []
      else do {
        r \<leftarrow> queue_walk s h (q_next s q);
        Some (q # r)
      })"

lemma queue_walk_from: "queue_at s h (as @ bs) \<Longrightarrow> queue_walk s h (hd (bs @ [h])) = Some bs"
proof (induction bs arbitrary: as)
  case Nil
  then show ?case by (simp add: queue_walk.simps)
next
  case (Cons b bs)
  then have "queue_walk s h (hd (bs @ [h])) = Some bs" using Cons.IH [of "as @ [b]"] by simp
  moreover have "b \<noteq> h" using Cons.prems by (auto simp: queue_at_def)
  ultimately show ?case
    using queue_at_next [OF Cons.prems] by (simp add: queue_walk.simps [of s h b])
qed

lemma queue_walk_all: "queue_at s h xs \<Longrightarrow> queue_walk s h (q_next s h) = Some xs"
  using queue_walk_from [of s h "[]" xs] by (simp add: queue_at_head)

section \<open>The interface the clients of a queue rely on\<close>

text \<open>
  Several queues share one link store (the free and the used list of the connection pool, the list of
  data servers). The interface says what an operation does to the queue it is applied to and that a
  queue with other nodes is left as it was; the lemmas on moving a node between two queues follow from
  it.
\<close>

locale queue_store =
  fixes at :: "'s \<Rightarrow> addr \<Rightarrow> addr list \<Rightarrow> bool"
    and ins_head :: "addr \<Rightarrow> addr \<Rightarrow> 's \<Rightarrow> 's"
    and ins_tail :: "addr \<Rightarrow> addr \<Rightarrow> 's \<Rightarrow> 's"
    and rem :: "addr \<Rightarrow> 's \<Rightarrow> 's"
  assumes at_distinct: "at s h xs \<Longrightarrow> distinct (h # xs)"
    and at_ins_head: "at s h xs \<Longrightarrow> x \<notin> set (h # xs) \<Longrightarrow> at (ins_head h x s) h (x # xs)"
    and at_ins_tail: "at s h xs \<Longrightarrow> x \<notin> set (h # xs) \<Longrightarrow> at (ins_tail h x s) h (xs @ [x])"
    and at_rem: "at s h (as @ x # bs) \<Longrightarrow> at (rem x s) h (as @ bs)"
    and frame_ins_head: "at s g ys \<Longrightarrow> at s h xs \<Longrightarrow> set (g # ys) \<inter> set (x # h # xs) = {} \<Longrightarrow>
      at (ins_head h x s) g ys"
    and frame_ins_tail: "at s g ys \<Longrightarrow> at s h xs \<Longrightarrow> set (g # ys) \<inter> set (x # h # xs) = {} \<Longrightarrow>
      at (ins_tail h x s) g ys"
    and frame_rem: "at s g ys \<Longrightarrow> at s h (as @ x # bs) \<Longrightarrow>
      set (g # ys) \<inter> set (h # as @ x # bs) = {} \<Longrightarrow> at (rem x s) g ys"
begin

lemma move_to_head:
  assumes "at s f (as @ x # bs)" and "at s u us"
    and dj: "set (u # us) \<inter> set (f # as @ x # bs) = {}"
  shows "at (ins_head u x (rem x s)) f (as @ bs)" and "at (ins_head u x (rem x s)) u (x # us)"
proof -
  have u1: "at (rem x s) u us" by (rule frame_rem [OF assms(2,1) dj])
  have f1: "at (rem x s) f (as @ bs)" by (rule at_rem [OF assms(1)])
  have "distinct (f # as @ x # bs)" by (rule at_distinct [OF assms(1)])
  then show "at (ins_head u x (rem x s)) f (as @ bs)"
    using dj by (intro frame_ins_head [OF f1 u1]) auto
  show "at (ins_head u x (rem x s)) u (x # us)"
    using dj by (intro at_ins_head [OF u1]) auto
qed

end

lemma queue_at_frame:
  assumes "queue_at s g ys"
    and "\<And>a. a \<in> set (g # ys) \<Longrightarrow> q_next t a = q_next s a \<and> q_prev t a = q_prev s a"
  shows "queue_at t g ys"
proof -
  have "linked t (g # ys @ [g])"
    by (rule linked_frame [where s = s])
       (use assms in \<open>auto simp: queue_at_def butlast_append split: if_splits\<close>)
  then show ?thesis using assms(1) by (simp add: queue_at_def)
qed

lemma queue_at_ends_in: "queue_at s h xs \<Longrightarrow> q_next s h \<in> set (h # xs) \<and> q_prev s h \<in> set (h # xs)"
  by (cases xs) (auto simp: queue_at_head queue_at_last)

interpretation gq: queue_store queue_at gfs_queue_insert_head gfs_queue_insert_tail gfs_queue_remove
proof (unfold_locales, goal_cases)
  case (1 s h xs)
  then show ?case by (simp add: queue_at_def)
next
  case (2 s h xs x)
  then show ?case by (rule queue_at_insert_head)
next
  case (3 s h xs x)
  then show ?case by (rule queue_at_insert_tail)
next
  case (4 s h as x bs)
  then show ?case by (rule queue_at_remove)
next
  case (5 s g ys h xs x)
  then show ?case
    using queue_at_ends_in [OF 5(2)]
    by (intro queue_at_frame [OF 5(1)]) (auto simp: gfs_queue_insert_head_def Let_def)
next
  case (6 s g ys h xs x)
  then show ?case
    using queue_at_ends_in [OF 6(2)]
    by (intro queue_at_frame [OF 6(1)]) (auto simp: gfs_queue_insert_tail_def Let_def)
next
  case (7 s g ys h as x bs)
  have "q_prev s x \<in> set (h # as)" and "q_next s x \<in> set (bs @ [h])"
    using queue_at_prev [OF 7(2)] queue_at_next [OF 7(2)] by (auto simp: hd_append)
  then show ?case
    using 7(3) by (intro queue_at_frame [OF 7(1)]) (auto simp: gfs_queue_remove_def Let_def)
qed

section \<open>Properties\<close>

text \<open>
  C9: for every comparison function that says which of two nodes has the smaller key,
  \<open>gfs_queue_sort\<close> ends, and the queue it leaves is well linked and holds the nodes in the order of the
  stable sort of the library.
\<close>

theorem queue_sort_stable:
  fixes f :: "addr \<Rightarrow> 'k::linorder"
  assumes "queue_at s h xs" and "\<forall>a b. (cmp a b \<le> 0) = (f a \<le> f b)"
  shows "\<exists>t. gfs_queue_sort cmp h s = Some t \<and> queue_at t h (sort_key f xs)"
  using queue_sort_correct [OF assms(1)] assms(2) by blast

definition sample_queue :: qstore where
  "sample_queue = gfs_queue_insert_tail 9 2 (gfs_queue_insert_tail 9 1 (gfs_queue_insert_tail 9 3
     (gfs_queue_init 9 \<lparr>q_prev = (\<lambda>_. 0), q_next = (\<lambda>_. 0)\<rparr>)))"

lemma sample_queue_at: "queue_at sample_queue 9 [3, 1, 2]"
  by (simp add: sample_queue_def queue_at_def gfs_queue_insert_tail_def gfs_queue_init_def Let_def)

theorem queue_sort_stable_witness:
  "\<exists>t. gfs_queue_sort (\<lambda>a b. if a \<le> b then 0 else 1) 9 sample_queue = Some t \<and> queue_at t 9 [1, 2, 3]"
  using queue_sort_stable [OF sample_queue_at, of "\<lambda>a b. if a \<le> b then 0 else 1" "\<lambda>a. a"] by simp

text \<open>
  C29: \<open>gfs_queue_middle\<close> of a queue with at least one node ends and returns the node
  at position \<open>length div 2\<close>.
\<close>

theorem queue_middle_node:
  assumes "queue_at s h xs" and "xs \<noteq> []"
  shows "gfs_queue_middle s h = Some (xs ! (length xs div 2))"
proof (cases "length xs = 1")
  case True
  then obtain x where "xs = [x]" by (auto simp: length_Suc_conv)
  then show ?thesis
    using queue_at_head [OF assms(1)] queue_at_last [OF assms(1)] by (simp add: gfs_queue_middle_def)
next
  case False
  then have l: "2 * 0 + 1 < length xs" using assms(2) by (cases xs) auto
  have "xs ! 0 \<noteq> xs ! (length xs - 1)"
    using assms l nth_eq_iff_index_eq [of xs 0 "length xs - 1"] by (simp add: queue_at_def)
  moreover have "q_next s h = xs ! 0" "q_prev s h = xs ! (length xs - 1)"
    using queue_at_head [OF assms(1)] queue_at_last [OF assms(1)] assms(2)
    by (auto simp: hd_conv_nth last_conv_nth hd_append)
  ultimately show ?thesis
    using middle_loop_correct [OF assms(1) l] by (simp add: gfs_queue_middle_def)
qed

theorem queue_middle_node_witness: "gfs_queue_middle sample_queue 9 = Some 1"
  using queue_middle_node [OF sample_queue_at] by simp



text \<open>
  C28: \<open>gfs_queue_split\<close> cuts a queue in two before a node, and \<open>gfs_queue_add\<close> joins the
  two parts to the queue that was split.
\<close>

theorem queue_split_add:
  assumes "queue_at s h (xs @ x # ys)" and "n \<notin> set (h # xs @ x # ys)"
  shows "queue_at (gfs_queue_split h x n s) h xs \<and> queue_at (gfs_queue_split h x n s) n (x # ys)
    \<and> queue_at (gfs_queue_add h n (gfs_queue_split h x n s)) h (xs @ x # ys)"
proof -
  note sp = queue_at_queue_split [OF assms]
  moreover have "distinct (h # n # xs @ x # ys)" using gq.at_distinct [OF assms(1)] assms(2) by auto
  ultimately show ?thesis using queue_at_add [of "gfs_queue_split h x n s" h xs n "x # ys"] by simp
qed

theorem queue_split_add_witness: "queue_at (gfs_queue_add 9 8 (gfs_queue_split 9 1 8 sample_queue)) 9 [3, 1, 2]"
  using queue_split_add [of sample_queue 9 "[3]" 1 "[2]" 8] sample_queue_at by simp

end
