(* ===== verification/Rbtree.thy ===== *)
theory Rbtree
  imports Config "HOL-Library.Tree"
begin

text \<open>
  \<open>core/gfs_rbtree.h\<close> and \<open>core/gfs_rbtree.c\<close>: the red-black tree with parent pointers and a sentinel
  that indexes the data servers and the timers. Nodes live in a store indexed by their address and
  every assignment of the C code is an update of that store, so the order of the assignments, the
  aliasing between the sentinel and a missing child and the parent pointer that a deletion stores in
  the sentinel are those of the program. The insertion function of a tree (\<open>tree->insert\<close>) is an
  argument of \<open>gfs_rbtree_insert\<close>.
\<close>

section \<open>The node store\<close>

record rbnode =
  nd_key :: u32
  nd_left :: addr
  nd_right :: addr
  nd_parent :: addr
  nd_red :: bool

record rbt =
  rb_nodes :: "addr \<Rightarrow> rbnode"
  rb_root :: addr
  rb_sentinel :: addr

abbreviation key :: "rbt \<Rightarrow> addr \<Rightarrow> u32" where "key t a \<equiv> nd_key (rb_nodes t a)"
abbreviation lft :: "rbt \<Rightarrow> addr \<Rightarrow> addr" where "lft t a \<equiv> nd_left (rb_nodes t a)"
abbreviation rgt :: "rbt \<Rightarrow> addr \<Rightarrow> addr" where "rgt t a \<equiv> nd_right (rb_nodes t a)"
abbreviation par :: "rbt \<Rightarrow> addr \<Rightarrow> addr" where "par t a \<equiv> nd_parent (rb_nodes t a)"
abbreviation red :: "rbt \<Rightarrow> addr \<Rightarrow> bool" where "red t a \<equiv> nd_red (rb_nodes t a)"

definition upd_node :: "addr \<Rightarrow> (rbnode \<Rightarrow> rbnode) \<Rightarrow> rbt \<Rightarrow> rbt" where
  "upd_node a f t = t\<lparr>rb_nodes := (rb_nodes t)(a := f (rb_nodes t a))\<rparr>"

definition set_key :: "addr \<Rightarrow> u32 \<Rightarrow> rbt \<Rightarrow> rbt" where
  "set_key a v = upd_node a (nd_key_update (\<lambda>_. v))"

definition set_left :: "addr \<Rightarrow> addr \<Rightarrow> rbt \<Rightarrow> rbt" where
  "set_left a v = upd_node a (nd_left_update (\<lambda>_. v))"

definition set_right :: "addr \<Rightarrow> addr \<Rightarrow> rbt \<Rightarrow> rbt" where
  "set_right a v = upd_node a (nd_right_update (\<lambda>_. v))"

definition set_parent :: "addr \<Rightarrow> addr \<Rightarrow> rbt \<Rightarrow> rbt" where
  "set_parent a v = upd_node a (nd_parent_update (\<lambda>_. v))"

definition gfs_rbt_red :: "addr \<Rightarrow> rbt \<Rightarrow> rbt" where
  "gfs_rbt_red a = upd_node a (nd_red_update (\<lambda>_. True))"

definition gfs_rbt_black :: "addr \<Rightarrow> rbt \<Rightarrow> rbt" where
  "gfs_rbt_black a = upd_node a (nd_red_update (\<lambda>_. False))"

definition gfs_rbt_copy_color :: "addr \<Rightarrow> addr \<Rightarrow> rbt \<Rightarrow> rbt" where
  "gfs_rbt_copy_color a b t = upd_node a (nd_red_update (\<lambda>_. red t b)) t"

definition set_root :: "addr \<Rightarrow> rbt \<Rightarrow> rbt" where
  "set_root a t = t\<lparr>rb_root := a\<rparr>"

text \<open>\<open>gfs_rbtree_init\<close>: the sentinel is black and is the root of the empty tree.\<close>

definition gfs_rbtree_init :: "addr \<Rightarrow> rbt \<Rightarrow> rbt" where
  "gfs_rbtree_init s t = (gfs_rbt_black s t)\<lparr>rb_root := s, rb_sentinel := s\<rparr>"

section \<open>Searching\<close>

text \<open>The descent to the leftmost node; it is the one loop that is entered with a pointer that can be \<open>NULL\<close>.\<close>

partial_function (option) gfs_rbtree_min :: "rbt \<Rightarrow> addr \<Rightarrow> addr option" where
  [code]: "gfs_rbtree_min t node =
     (if node = NULL then None
      else if lft t node \<noteq> rb_sentinel t then gfs_rbtree_min t (lft t node) else Some node)"

text \<open>The result is \<open>NULL\<close> when the key is absent.\<close>

partial_function (option) lookup_loop :: "rbt \<Rightarrow> u32 \<Rightarrow> addr \<Rightarrow> addr option" where
  [code]: "lookup_loop t k tmpnode =
     (if tmpnode = rb_sentinel t then Some NULL
      else if k \<noteq> key t tmpnode then
        lookup_loop t k (if k < key t tmpnode then lft t tmpnode else rgt t tmpnode)
      else Some tmpnode)"

definition gfs_rbtree_lookup_value :: "rbt \<Rightarrow> u32 \<Rightarrow> addr option" where
  "gfs_rbtree_lookup_value t k = lookup_loop t k (rb_root t)"

section \<open>Rotations\<close>

definition gfs_rbtree_left_rotate :: "addr \<Rightarrow> rbt \<Rightarrow> rbt" where
  "gfs_rbtree_left_rotate node t =
     (let temp = rgt t node;
          t = set_right node (lft t temp) t;
          t = (if lft t temp \<noteq> rb_sentinel t then set_parent (lft t temp) node t else t);
          t = set_parent temp (par t node) t;
          t = (if node = rb_root t then set_root temp t
               else if node = lft t (par t node) then set_left (par t node) temp t
               else set_right (par t node) temp t);
          t = set_left temp node t;
          t = set_parent node temp t
      in t)"

definition gfs_rbtree_right_rotate :: "addr \<Rightarrow> rbt \<Rightarrow> rbt" where
  "gfs_rbtree_right_rotate node t =
     (let temp = lft t node;
          t = set_left node (rgt t temp) t;
          t = (if rgt t temp \<noteq> rb_sentinel t then set_parent (rgt t temp) node t else t);
          t = set_parent temp (par t node) t;
          t = (if node = rb_root t then set_root temp t
               else if node = rgt t (par t node) then set_right (par t node) temp t
               else set_left (par t node) temp t);
          t = set_right temp node t;
          t = set_parent node temp t
      in t)"

section \<open>Insertion\<close>

text \<open>The tail shared by the insertion functions: link the node below \<open>temp\<close> and make it red.\<close>

definition attach :: "bool \<Rightarrow> addr \<Rightarrow> addr \<Rightarrow> rbt \<Rightarrow> rbt" where
  "attach to_left temp node t =
     (let t = (if to_left then set_left temp node t else set_right temp node t);
          t = set_parent node temp t;
          t = set_left node (rb_sentinel t) t;
          t = set_right node (rb_sentinel t) t;
          t = gfs_rbt_red node t
      in t)"

partial_function (option) gfs_rbtree_insert_value :: "addr \<Rightarrow> addr \<Rightarrow> rbt \<Rightarrow> rbt option" where
  [code]: "gfs_rbtree_insert_value temp node t =
     (let l = (key t node < key t temp);
          p = (if l then lft t temp else rgt t temp)
      in if p = rb_sentinel t then Some (attach l temp node t)
         else gfs_rbtree_insert_value p node t)"

text \<open>One round of the rebalancing loop: the node the loop goes on with and the new store.\<close>

definition rebalance_step :: "addr \<Rightarrow> rbt \<Rightarrow> addr \<times> rbt" where
  "rebalance_step node t =
     (if par t node = lft t (par t (par t node)) then
        let temp = rgt t (par t (par t node)) in
        if red t temp then
          let t = gfs_rbt_black (par t node) t;
              t = gfs_rbt_black temp t;
              t = gfs_rbt_red (par t (par t node)) t
          in (par t (par t node), t)
        else
          let (node, t) = (if node = rgt t (par t node)
                           then let node = par t node in (node, gfs_rbtree_left_rotate node t)
                           else (node, t));
              t = gfs_rbt_black (par t node) t;
              t = gfs_rbt_red (par t (par t node)) t;
              t = gfs_rbtree_right_rotate (par t (par t node)) t
          in (node, t)
      else
        let temp = lft t (par t (par t node)) in
        if red t temp then
          let t = gfs_rbt_black (par t node) t;
              t = gfs_rbt_black temp t;
              t = gfs_rbt_red (par t (par t node)) t
          in (par t (par t node), t)
        else
          let (node, t) = (if node = lft t (par t node)
                           then let node = par t node in (node, gfs_rbtree_right_rotate node t)
                           else (node, t));
              t = gfs_rbt_black (par t node) t;
              t = gfs_rbt_red (par t (par t node)) t;
              t = gfs_rbtree_left_rotate (par t (par t node)) t
          in (node, t))"

partial_function (option) rebalance_loop :: "addr \<Rightarrow> rbt \<Rightarrow> rbt option" where
  [code]: "rebalance_loop node t =
     (if node \<noteq> rb_root t \<and> red t (par t node)
      then case rebalance_step node t of (node, t) \<Rightarrow> rebalance_loop node t
      else Some t)"

definition gfs_rbtree_insert :: "(addr \<Rightarrow> addr \<Rightarrow> rbt \<Rightarrow> rbt option) \<Rightarrow> addr \<Rightarrow> rbt \<Rightarrow> rbt option" where
  "gfs_rbtree_insert ins node t =
     (if rb_root t = rb_sentinel t then
        let t = set_parent node NULL t;
            t = set_left node (rb_sentinel t) t;
            t = set_right node (rb_sentinel t) t;
            t = gfs_rbt_black node t
        in Some (set_root node t)
      else do {
        t \<leftarrow> ins (rb_root t) node t;
        t \<leftarrow> rebalance_loop node t;
        Some (gfs_rbt_black (rb_root t) t)
      })"

section \<open>Deletion\<close>

definition delete_subst :: "addr \<Rightarrow> rbt \<Rightarrow> (addr \<times> addr) option" where
  "delete_subst node t =
     (if lft t node = rb_sentinel t then Some (rgt t node, node)
      else if rgt t node = rb_sentinel t then Some (lft t node, node)
      else do {
        subst \<leftarrow> gfs_rbtree_min t (rgt t node);
        Some (if lft t subst \<noteq> rb_sentinel t then lft t subst else rgt t subst, subst)
      })"

definition clear_node :: "addr \<Rightarrow> rbt \<Rightarrow> rbt" where
  "clear_node node t =
     set_key node 0 (set_parent node NULL (set_right node NULL (set_left node NULL t)))"

text \<open>Replace \<open>node\<close> by its successor \<open>subst\<close>, which the code has already cut out.\<close>

definition delete_move :: "addr \<Rightarrow> addr \<Rightarrow> addr \<Rightarrow> rbt \<Rightarrow> rbt" where
  "delete_move node subst temp t =
     (let t = (if par t subst = node then set_parent temp subst t
               else set_parent temp (par t subst) t);
          t = set_left subst (lft t node) t;
          t = set_right subst (rgt t node) t;
          t = set_parent subst (par t node) t;
          t = gfs_rbt_copy_color subst node t;
          t = (if node = rb_root t then set_root subst t
               else if node = lft t (par t node) then set_left (par t node) subst t
               else set_right (par t node) subst t);
          t = (if lft t subst \<noteq> rb_sentinel t then set_parent (lft t subst) subst t else t);
          t = (if rgt t subst \<noteq> rb_sentinel t then set_parent (rgt t subst) subst t else t)
      in t)"

definition fixup_left :: "addr \<Rightarrow> rbt \<Rightarrow> addr \<times> rbt" where
  "fixup_left temp t =
     (let w = rgt t (par t temp);
          (w, t) = (if red t w
                    then let t = gfs_rbt_black w t;
                             t = gfs_rbt_red (par t temp) t;
                             t = gfs_rbtree_left_rotate (par t temp) t
                         in (rgt t (par t temp), t)
                    else (w, t))
      in if \<not> red t (lft t w) \<and> \<not> red t (rgt t w)
         then let t = gfs_rbt_red w t in (par t temp, t)
         else
           let (w, t) = (if \<not> red t (rgt t w)
                         then let t = gfs_rbt_black (lft t w) t;
                                  t = gfs_rbt_red w t;
                                  t = gfs_rbtree_right_rotate w t
                              in (rgt t (par t temp), t)
                         else (w, t));
               t = gfs_rbt_copy_color w (par t temp) t;
               t = gfs_rbt_black (par t temp) t;
               t = gfs_rbt_black (rgt t w) t;
               t = gfs_rbtree_left_rotate (par t temp) t
           in (rb_root t, t))"

definition fixup_right :: "addr \<Rightarrow> rbt \<Rightarrow> addr \<times> rbt" where
  "fixup_right temp t =
     (let w = lft t (par t temp);
          (w, t) = (if red t w
                    then let t = gfs_rbt_black w t;
                             t = gfs_rbt_red (par t temp) t;
                             t = gfs_rbtree_right_rotate (par t temp) t
                         in (lft t (par t temp), t)
                    else (w, t))
      in if \<not> red t (lft t w) \<and> \<not> red t (rgt t w)
         then let t = gfs_rbt_red w t in (par t temp, t)
         else
           let (w, t) = (if \<not> red t (lft t w)
                         then let t = gfs_rbt_black (rgt t w) t;
                                  t = gfs_rbt_red w t;
                                  t = gfs_rbtree_left_rotate w t
                              in (lft t (par t temp), t)
                         else (w, t));
               t = gfs_rbt_copy_color w (par t temp) t;
               t = gfs_rbt_black (par t temp) t;
               t = gfs_rbt_black (lft t w) t;
               t = gfs_rbtree_right_rotate (par t temp) t
           in (rb_root t, t))"

partial_function (option) fixup_loop :: "addr \<Rightarrow> rbt \<Rightarrow> rbt option" where
  [code]: "fixup_loop temp t =
     (if temp \<noteq> rb_root t \<and> \<not> red t temp
      then case (if temp = lft t (par t temp) then fixup_left temp t else fixup_right temp t) of
             (temp, t) \<Rightarrow> fixup_loop temp t
      else Some (gfs_rbt_black temp t))"

definition gfs_rbtree_delete :: "addr \<Rightarrow> rbt \<Rightarrow> rbt option" where
  "gfs_rbtree_delete node t = do {
     (temp, subst) \<leftarrow> delete_subst node t;
     if subst = rb_root t then
       Some (clear_node node (gfs_rbt_black temp (set_root temp t)))
     else do {
       let is_red = red t subst;
       let t = (if subst = lft t (par t subst) then set_left (par t subst) temp t
                else set_right (par t subst) temp t);
       let t = (if subst = node then set_parent temp (par t subst) t
                else delete_move node subst temp t);
       let t = clear_node node t;
       if is_red then Some t else fixup_loop temp t
     }
   }"

end
