(* ===== verification/Rbtree_Shape.thy ===== *)
theory Rbtree_Shape
  imports Rbtree
begin

text \<open>
  The tree a node store holds. \<open>rbt_at\<close> relates a pointer to the tree of the addresses reachable from
  it, with the parent pointers right; a context (the path from a subtree to the root, with the
  subtrees left aside) is what the loops that climb towards the root keep unchanged. The rotations are
  proved to rotate the tree in any context. The colour and black-height invariants are stated over the
  tree and the colours of the store.
\<close>

section \<open>Reading a store after an update\<close>

lemma set_key_fields [simp]:
  "key (set_key a v t) x = (if x = a then v else key t x)"
  "lft (set_key a v t) x = lft t x"
  "rgt (set_key a v t) x = rgt t x"
  "par (set_key a v t) x = par t x"
  "red (set_key a v t) x = red t x"
  "rb_root (set_key a v t) = rb_root t"
  "rb_sentinel (set_key a v t) = rb_sentinel t"
  by (simp_all add: set_key_def upd_node_def)

lemma set_left_fields [simp]:
  "key (set_left a v t) x = key t x"
  "lft (set_left a v t) x = (if x = a then v else lft t x)"
  "rgt (set_left a v t) x = rgt t x"
  "par (set_left a v t) x = par t x"
  "red (set_left a v t) x = red t x"
  "rb_root (set_left a v t) = rb_root t"
  "rb_sentinel (set_left a v t) = rb_sentinel t"
  by (simp_all add: set_left_def upd_node_def)

lemma set_right_fields [simp]:
  "key (set_right a v t) x = key t x"
  "lft (set_right a v t) x = lft t x"
  "rgt (set_right a v t) x = (if x = a then v else rgt t x)"
  "par (set_right a v t) x = par t x"
  "red (set_right a v t) x = red t x"
  "rb_root (set_right a v t) = rb_root t"
  "rb_sentinel (set_right a v t) = rb_sentinel t"
  by (simp_all add: set_right_def upd_node_def)

lemma set_parent_fields [simp]:
  "key (set_parent a v t) x = key t x"
  "lft (set_parent a v t) x = lft t x"
  "rgt (set_parent a v t) x = rgt t x"
  "par (set_parent a v t) x = (if x = a then v else par t x)"
  "red (set_parent a v t) x = red t x"
  "rb_root (set_parent a v t) = rb_root t"
  "rb_sentinel (set_parent a v t) = rb_sentinel t"
  by (simp_all add: set_parent_def upd_node_def)

lemma gfs_rbt_red_fields [simp]:
  "key (gfs_rbt_red a t) x = key t x"
  "lft (gfs_rbt_red a t) x = lft t x"
  "rgt (gfs_rbt_red a t) x = rgt t x"
  "par (gfs_rbt_red a t) x = par t x"
  "red (gfs_rbt_red a t) x = (if x = a then True else red t x)"
  "rb_root (gfs_rbt_red a t) = rb_root t"
  "rb_sentinel (gfs_rbt_red a t) = rb_sentinel t"
  by (simp_all add: gfs_rbt_red_def upd_node_def)

lemma gfs_rbt_black_fields [simp]:
  "key (gfs_rbt_black a t) x = key t x"
  "lft (gfs_rbt_black a t) x = lft t x"
  "rgt (gfs_rbt_black a t) x = rgt t x"
  "par (gfs_rbt_black a t) x = par t x"
  "red (gfs_rbt_black a t) x = (if x = a then False else red t x)"
  "rb_root (gfs_rbt_black a t) = rb_root t"
  "rb_sentinel (gfs_rbt_black a t) = rb_sentinel t"
  by (simp_all add: gfs_rbt_black_def upd_node_def)

lemma copy_color_fields [simp]:
  "key (gfs_rbt_copy_color a b t) x = key t x"
  "lft (gfs_rbt_copy_color a b t) x = lft t x"
  "rgt (gfs_rbt_copy_color a b t) x = rgt t x"
  "par (gfs_rbt_copy_color a b t) x = par t x"
  "red (gfs_rbt_copy_color a b t) x = (if x = a then red t b else red t x)"
  "rb_root (gfs_rbt_copy_color a b t) = rb_root t"
  "rb_sentinel (gfs_rbt_copy_color a b t) = rb_sentinel t"
  by (simp_all add: gfs_rbt_copy_color_def upd_node_def)

lemma set_root_fields [simp]:
  "rb_nodes (set_root a t) = rb_nodes t"
  "rb_root (set_root a t) = a"
  "rb_sentinel (set_root a t) = rb_sentinel t"
  by (simp_all add: set_root_def)

section \<open>Trees in the store\<close>

fun rbt_at :: "rbt \<Rightarrow> addr \<Rightarrow> addr \<Rightarrow> addr tree \<Rightarrow> bool" where
  "rbt_at t q p Leaf \<longleftrightarrow> p = rb_sentinel t"
| "rbt_at t q p (Node l a r) \<longleftrightarrow>
     p = a \<and> a \<noteq> rb_sentinel t \<and> par t a = q \<and> rbt_at t a (lft t a) l \<and> rbt_at t a (rgt t a) r"

definition rbt_holds :: "rbt \<Rightarrow> addr tree \<Rightarrow> bool" where
  "rbt_holds t T \<longleftrightarrow> (\<exists>q. rbt_at t q (rb_root t) T)"

datatype dir = L | R

type_synonym ctx = "(dir \<times> addr \<times> addr tree) list"

fun plug :: "ctx \<Rightarrow> addr tree \<Rightarrow> addr tree" where
  "plug [] T = T"
| "plug ((L, a, S) # c) T = plug c (Node T a S)"
| "plug ((R, a, S) # c) T = plug c (Node S a T)"

fun ctx_at :: "rbt \<Rightarrow> ctx \<Rightarrow> addr \<Rightarrow> addr \<Rightarrow> bool" where
  "ctx_at t [] p q \<longleftrightarrow> p = rb_root t"
| "ctx_at t ((L, a, S) # c) p q \<longleftrightarrow>
     q = a \<and> a \<noteq> rb_sentinel t \<and> lft t a = p \<and> rbt_at t a (rgt t a) S \<and> ctx_at t c a (par t a)"
| "ctx_at t ((R, a, S) # c) p q \<longleftrightarrow>
     q = a \<and> a \<noteq> rb_sentinel t \<and> rgt t a = p \<and> rbt_at t a (lft t a) S \<and> ctx_at t c a (par t a)"

fun cset :: "ctx \<Rightarrow> addr set" where
  "cset [] = {}"
| "cset ((d, a, S) # c) = insert a (set_tree S \<union> cset c)"

lemma set_tree_plug [simp]: "set_tree (plug c T) = cset c \<union> set_tree T"
  by (induction c T rule: plug.induct) auto

lemma distinct_plugD:
  "distinct (inorder (plug c T)) \<Longrightarrow> distinct (inorder T) \<and> cset c \<inter> set_tree T = {}"
  by (induction c T rule: plug.induct) (auto simp flip: set_inorder)

lemma inorder_plug_cong: "inorder T = inorder T' \<Longrightarrow> inorder (plug c T) = inorder (plug c T')"
  by (induction c T arbitrary: T' rule: plug.induct) auto

lemma rbt_holds_plug:
  "rbt_holds t (plug c T) \<longleftrightarrow> (\<exists>p q. ctx_at t c p q \<and> rbt_at t q p T)"
proof (induction c T rule: plug.induct)
  case (1 T)
  then show ?case by (auto simp: rbt_holds_def)
qed auto

lemma rbt_at_frame:
  "rbt_at t q p T \<Longrightarrow> rb_sentinel t' = rb_sentinel t \<Longrightarrow>
   (\<And>a. a \<in> set_tree T \<Longrightarrow> lft t' a = lft t a \<and> rgt t' a = rgt t a \<and> par t' a = par t a) \<Longrightarrow>
   rbt_at t' q p T"
  by (induction T arbitrary: q p) auto

lemma ctx_at_frame:
  "ctx_at t c p q \<Longrightarrow> rb_sentinel t' = rb_sentinel t \<Longrightarrow> rb_root t' = rb_root t \<Longrightarrow>
   (\<And>a. a \<in> cset c \<Longrightarrow> lft t' a = lft t a \<and> rgt t' a = rgt t a \<and> par t' a = par t a) \<Longrightarrow>
   ctx_at t' c p q"
  by (induction t c p q rule: ctx_at.induct) (auto intro: rbt_at_frame)

lemma rbt_at_sentinel: "rbt_at t q p T \<Longrightarrow> rb_sentinel t \<notin> set_tree T"
  by (induction T arbitrary: q p) auto

lemma rbt_at_in: "rbt_at t q p T \<Longrightarrow> p \<noteq> rb_sentinel t \<Longrightarrow> p \<in> set_tree T"
  by (cases T) auto

lemma ctx_at_sentinel: "ctx_at t c p q \<Longrightarrow> rb_sentinel t \<notin> cset c"
  by (induction t c p q rule: ctx_at.induct) (auto dest: rbt_at_sentinel)

lemma ctx_at_root: "ctx_at t c p q \<Longrightarrow> c \<noteq> [] \<Longrightarrow> rb_root t \<in> cset c"
proof (induction t c p q rule: ctx_at.induct)
  case (2 t a S c p q)
  then show ?case by (cases c) auto
next
  case (3 t a S c p q)
  then show ?case by (cases c) auto
qed auto

lemma ctx_at_parent: "ctx_at t c p q \<Longrightarrow> c \<noteq> [] \<Longrightarrow> q = fst (snd (hd c)) \<and> q \<in> cset c"
  by (cases "(t, c, p, q)" rule: ctx_at.cases) auto

section \<open>Rotations\<close>

text \<open>\<open>rb_frame A\<close>: the step keeps the keys, and outside of \<open>A\<close> everything.\<close>

definition rb_frame :: "addr set \<Rightarrow> rbt \<Rightarrow> rbt \<Rightarrow> bool" where
  "rb_frame A t t' \<longleftrightarrow> rb_sentinel t' = rb_sentinel t \<and> (\<forall>a. key t' a = key t a)
     \<and> (\<forall>a. a \<notin> A \<longrightarrow> rb_nodes t' a = rb_nodes t a)"

lemma rb_frame_refl [simp]: "rb_frame A t t"
  by (simp add: rb_frame_def)

lemma rb_frame_trans: "rb_frame A t t' \<Longrightarrow> rb_frame A t' t'' \<Longrightarrow> rb_frame A t t''"
  by (simp add: rb_frame_def)

lemma rbt_at_reparent:
  assumes "rbt_at t q p T" and "distinct (inorder T)" and "rb_sentinel t' = rb_sentinel t"
    and "p \<noteq> rb_sentinel t \<Longrightarrow> par t' p = q'"
    and "\<And>a. a \<in> set_tree T \<Longrightarrow> lft t' a = lft t a \<and> rgt t' a = rgt t a"
    and "\<And>a. a \<in> set_tree T \<Longrightarrow> a \<noteq> p \<Longrightarrow> par t' a = par t a"
  shows "rbt_at t' q' p T"
proof (cases T)
  case Leaf
  then show ?thesis using assms by simp
next
  case (Node l a r)
  have "rbt_at t' a (lft t a) l" and "rbt_at t' a (rgt t a) r"
    by (rule rbt_at_frame [where t = t]; use assms Node in \<open>force simp flip: set_inorder\<close>)+
  then show ?thesis using assms Node by auto
qed

lemma left_rotate_fields:
  assumes "rgt t x = y" and "x \<noteq> y" and "lft t y \<noteq> x" and "lft t y \<noteq> y" 
    and "x \<noteq> rb_root t \<longrightarrow> par t x \<noteq> x \<and> par t x \<noteq> y"
  shows "lft (gfs_rbtree_left_rotate x t) a =
      (if a = y then x else if a = par t x \<and> x \<noteq> rb_root t \<and> lft t a = x then y else lft t a)"
    and "rgt (gfs_rbtree_left_rotate x t) a =
      (if a = x then lft t y
       else if a = par t x \<and> x \<noteq> rb_root t \<and> lft t a \<noteq> x then y else rgt t a)"
    and "par (gfs_rbtree_left_rotate x t) a =
      (if a = x then y else if a = y then par t x
       else if a = lft t y \<and> lft t y \<noteq> rb_sentinel t then x else par t a)"
    and "rb_root (gfs_rbtree_left_rotate x t) = (if x = rb_root t then y else rb_root t)"
    and "rb_sentinel (gfs_rbtree_left_rotate x t) = rb_sentinel t"
    and "key (gfs_rbtree_left_rotate x t) a = key t a"
    and "red (gfs_rbtree_left_rotate x t) a = red t a"
proof -
  define t1 where "t1 = set_right x (lft t y) t"
  define t2 where "t2 = (if lft t1 y \<noteq> rb_sentinel t1 then set_parent (lft t1 y) x t1 else t1)"
  define t3 where "t3 = set_parent y (par t2 x) t2"
  define t4 where "t4 = (if x = rb_root t3 then set_root y t3
    else if x = lft t3 (par t3 x) then set_left (par t3 x) y t3 else set_right (par t3 x) y t3)"
  have eq: "gfs_rbtree_left_rotate x t = set_parent x y (set_left y x t4)"
    using assms(1) by (simp only: gfs_rbtree_left_rotate_def Let_def t1_def t2_def t3_def t4_def)
  have f1: "\<And>a. lft t1 a = lft t a" "\<And>a. rgt t1 a = (if a = x then lft t y else rgt t a)"
    "\<And>a. par t1 a = par t a" "\<And>a. key t1 a = key t a" "\<And>a. red t1 a = red t a"
    "rb_root t1 = rb_root t" "rb_sentinel t1 = rb_sentinel t"
    by (simp_all add: t1_def)
  have f3: "\<And>a. lft t3 a = lft t a" "\<And>a. rgt t3 a = (if a = x then lft t y else rgt t a)"
    "\<And>a. par t3 a = (if a = y then par t x else if a = lft t y \<and> lft t y \<noteq> rb_sentinel t then x else par t a)"
    "\<And>a. key t3 a = key t a" "\<And>a. red t3 a = red t a"
    "rb_root t3 = rb_root t" "rb_sentinel t3 = rb_sentinel t"
    using assms(2-4) by (simp_all add: t3_def t2_def f1)
  have f4: "\<And>a. lft t4 a = (if a = par t x \<and> x \<noteq> rb_root t \<and> lft t a = x then y else lft t a)"
    "\<And>a. rgt t4 a = (if a = par t x \<and> x \<noteq> rb_root t \<and> lft t a \<noteq> x then y
       else if a = x then lft t y else rgt t a)"
    "\<And>a. par t4 a = par t3 a" "\<And>a. key t4 a = key t a" "\<And>a. red t4 a = red t a"
    "rb_root t4 = (if x = rb_root t then y else rb_root t)" "rb_sentinel t4 = rb_sentinel t"
    using assms(2-5) by (auto simp: t4_def f3)
  show "lft (gfs_rbtree_left_rotate x t) a =
      (if a = y then x else if a = par t x \<and> x \<noteq> rb_root t \<and> lft t a = x then y else lft t a)"
    and "rgt (gfs_rbtree_left_rotate x t) a =
      (if a = x then lft t y
       else if a = par t x \<and> x \<noteq> rb_root t \<and> lft t a \<noteq> x then y else rgt t a)"
    and "par (gfs_rbtree_left_rotate x t) a =
      (if a = x then y else if a = y then par t x
       else if a = lft t y \<and> lft t y \<noteq> rb_sentinel t then x else par t a)"
    and "rb_root (gfs_rbtree_left_rotate x t) = (if x = rb_root t then y else rb_root t)"
    and "rb_sentinel (gfs_rbtree_left_rotate x t) = rb_sentinel t"
    and "key (gfs_rbtree_left_rotate x t) a = key t a"
    and "red (gfs_rbtree_left_rotate x t) a = red t a"
    using assms(2,5) by (auto simp: eq f4 f3)
qed

lemma right_rotate_fields:
  assumes "lft t x = y" and "x \<noteq> y" and "rgt t y \<noteq> x" and "rgt t y \<noteq> y" 
    and "x \<noteq> rb_root t \<longrightarrow> par t x \<noteq> x \<and> par t x \<noteq> y"
  shows "rgt (gfs_rbtree_right_rotate x t) a =
      (if a = y then x else if a = par t x \<and> x \<noteq> rb_root t \<and> rgt t a = x then y else rgt t a)"
    and "lft (gfs_rbtree_right_rotate x t) a =
      (if a = x then rgt t y
       else if a = par t x \<and> x \<noteq> rb_root t \<and> rgt t a \<noteq> x then y else lft t a)"
    and "par (gfs_rbtree_right_rotate x t) a =
      (if a = x then y else if a = y then par t x
       else if a = rgt t y \<and> rgt t y \<noteq> rb_sentinel t then x else par t a)"
    and "rb_root (gfs_rbtree_right_rotate x t) = (if x = rb_root t then y else rb_root t)"
    and "rb_sentinel (gfs_rbtree_right_rotate x t) = rb_sentinel t"
    and "key (gfs_rbtree_right_rotate x t) a = key t a"
    and "red (gfs_rbtree_right_rotate x t) a = red t a"
proof -
  define t1 where "t1 = set_left x (rgt t y) t"
  define t2 where "t2 = (if rgt t1 y \<noteq> rb_sentinel t1 then set_parent (rgt t1 y) x t1 else t1)"
  define t3 where "t3 = set_parent y (par t2 x) t2"
  define t4 where "t4 = (if x = rb_root t3 then set_root y t3
    else if x = rgt t3 (par t3 x) then set_right (par t3 x) y t3 else set_left (par t3 x) y t3)"
  have eq: "gfs_rbtree_right_rotate x t = set_parent x y (set_right y x t4)"
    using assms(1) by (simp only: gfs_rbtree_right_rotate_def Let_def t1_def t2_def t3_def t4_def)
  have f1: "\<And>a. rgt t1 a = rgt t a" "\<And>a. lft t1 a = (if a = x then rgt t y else lft t a)"
    "\<And>a. par t1 a = par t a" "\<And>a. key t1 a = key t a" "\<And>a. red t1 a = red t a"
    "rb_root t1 = rb_root t" "rb_sentinel t1 = rb_sentinel t"
    by (simp_all add: t1_def)
  have f3: "\<And>a. rgt t3 a = rgt t a" "\<And>a. lft t3 a = (if a = x then rgt t y else lft t a)"
    "\<And>a. par t3 a = (if a = y then par t x else if a = rgt t y \<and> rgt t y \<noteq> rb_sentinel t then x else par t a)"
    "\<And>a. key t3 a = key t a" "\<And>a. red t3 a = red t a"
    "rb_root t3 = rb_root t" "rb_sentinel t3 = rb_sentinel t"
    using assms(2-4) by (simp_all add: t3_def t2_def f1)
  have f4: "\<And>a. rgt t4 a = (if a = par t x \<and> x \<noteq> rb_root t \<and> rgt t a = x then y else rgt t a)"
    "\<And>a. lft t4 a = (if a = par t x \<and> x \<noteq> rb_root t \<and> rgt t a \<noteq> x then y
       else if a = x then rgt t y else lft t a)"
    "\<And>a. par t4 a = par t3 a" "\<And>a. key t4 a = key t a" "\<And>a. red t4 a = red t a"
    "rb_root t4 = (if x = rb_root t then y else rb_root t)" "rb_sentinel t4 = rb_sentinel t"
    using assms(2-5) by (auto simp: t4_def f3)
  show "rgt (gfs_rbtree_right_rotate x t) a =
      (if a = y then x else if a = par t x \<and> x \<noteq> rb_root t \<and> rgt t a = x then y else rgt t a)"
    and "lft (gfs_rbtree_right_rotate x t) a =
      (if a = x then rgt t y
       else if a = par t x \<and> x \<noteq> rb_root t \<and> rgt t a \<noteq> x then y else lft t a)"
    and "par (gfs_rbtree_right_rotate x t) a =
      (if a = x then y else if a = y then par t x
       else if a = rgt t y \<and> rgt t y \<noteq> rb_sentinel t then x else par t a)"
    and "rb_root (gfs_rbtree_right_rotate x t) = (if x = rb_root t then y else rb_root t)"
    and "rb_sentinel (gfs_rbtree_right_rotate x t) = rb_sentinel t"
    and "key (gfs_rbtree_right_rotate x t) a = key t a"
    and "red (gfs_rbtree_right_rotate x t) a = red t a"
    using assms(2,5) by (auto simp: eq f4 f3)
qed

text \<open>
  A store change that redirects the hole of a context from one child to another.
\<close>

lemma ctx_at_relink:
  assumes "ctx_at t c x q" and "distinct (inorder (plug c T))"
    and "rb_sentinel t' = rb_sentinel t" and "rb_root t' = (if c = [] then y else rb_root t)"
    and "\<And>a. a \<in> cset c \<Longrightarrow> par t' a = par t a"
    and "\<And>a. a \<in> cset c \<Longrightarrow> lft t' a = (if a = q \<and> fst (hd c) = L then y else lft t a)"
    and "\<And>a. a \<in> cset c \<Longrightarrow> rgt t' a = (if a = q \<and> fst (hd c) = R then y else rgt t a)"
  shows "ctx_at t' c y q"
proof (cases c)
  case Nil
  then show ?thesis using assms by simp
next
  case (Cons f c')
  obtain d a S where f: "f = (d, a, S)" by (cases f)
  let ?N = "case d of L \<Rightarrow> Node T a S | R \<Rightarrow> Node S a T"
  have "distinct (inorder (plug c' ?N))" using assms(2) Cons f by (cases d) auto
  from distinct_plugD [OF this] have dd: "a \<notin> set_tree S" "a \<notin> cset c'"
    by (cases d; auto simp flip: set_inorder)+
  have q: "q = a" and S: "rbt_at t a (if d = L then rgt t a else lft t a) S" and c': "ctx_at t c' a (par t a)"
    using assms(1) Cons f by (cases d; auto)+
  have "rbt_at t' a (if d = L then rgt t a else lft t a) S"
    by (rule rbt_at_frame [OF S]) (use assms(3,5-7) Cons f q dd in auto)
  moreover have "ctx_at t' c' a (par t a)"
    by (rule ctx_at_frame [OF c']) (use assms(3-7) Cons f q dd in auto)
  ultimately show ?thesis using assms(1,3,5-7) Cons f q by (cases d) auto
qed

lemma ctx_at_side:
  assumes "ctx_at t c x q" and "c \<noteq> []" and "x \<notin> cset c" and "x \<noteq> rb_sentinel t"
  shows "fst (hd c) = L \<longleftrightarrow> lft t q = x" and "fst (hd c) = R \<longleftrightarrow> rgt t q = x"
proof -
  have "(fst (hd c) = L \<longleftrightarrow> lft t q = x) \<and> (fst (hd c) = R \<longleftrightarrow> rgt t q = x)"
    using assms by (cases "(t, c, x, q)" rule: ctx_at.cases) (auto dest: rbt_at_in)
  then show "fst (hd c) = L \<longleftrightarrow> lft t q = x" and "fst (hd c) = R \<longleftrightarrow> rgt t q = x" by auto
qed

lemma ctx_at_rootD:
  assumes "ctx_at t c x q" and "x \<notin> cset c"
  shows "x = rb_root t \<longleftrightarrow> c = []"
  using assms ctx_at_root [OF assms(1)] by (cases "c = []") auto

lemma left_rotate_holds:
  assumes c: "ctx_at t c x q" and T: "rbt_at t q x (Node A x (Node B y C))"
    and d: "distinct (inorder (plug c (Node A x (Node B y C))))"
  shows "ctx_at (gfs_rbtree_left_rotate x t) c y q"
    and "rbt_at (gfs_rbtree_left_rotate x t) q y (Node (Node A x B) y C)"
    and "rb_frame (cset c \<union> set_tree (Node A x (Node B y C))) t (gfs_rbtree_left_rotate x t)"
    and "red (gfs_rbtree_left_rotate x t) a = red t a"
proof -
  let ?t' = "gfs_rbtree_left_rotate x t"
  have dj: "cset c \<inter> set_tree (Node A x (Node B y C)) = {}" and dT: "distinct (inorder (Node A x (Node B y C)))"
    using distinct_plugD [OF d] by auto
  have rx: "rgt t x = y" and px: "par t x = q" and xs: "x \<noteq> rb_sentinel t" "y \<noteq> rb_sentinel t"
    and A: "rbt_at t x (lft t x) A" and B: "rbt_at t y (lft t y) B" and C: "rbt_at t y (rgt t y) C"
    using T by auto
  have ne: "x \<notin> set_tree A \<union> set_tree B \<union> set_tree C" "y \<notin> set_tree A \<union> set_tree B \<union> set_tree C"
      "set_tree B \<inter> (set_tree A \<union> set_tree C) = {}"
    using dT by (auto simp flip: set_inorder)
  have rootx: "x = rb_root t \<longleftrightarrow> c = []" using ctx_at_rootD [OF c] dj by auto
  have qc: "c \<noteq> [] \<Longrightarrow> q \<in> cset c" using ctx_at_parent [OF c] by blast
  have ly: "lft t y = rb_sentinel t \<or> lft t y \<in> set_tree B" using rbt_at_in [OF B] by blast
  have xy: "x \<noteq> y" using dT by (auto simp flip: set_inorder)
  have nl: "lft t y \<noteq> x" "lft t y \<noteq> y" using ly xs dT by (auto simp flip: set_inorder)
  have "x \<noteq> rb_root t \<longrightarrow> par t x \<noteq> x \<and> par t x \<noteq> y" using rootx qc dj px by auto
  note f = left_rotate_fields [OF rx xy nl this, unfolded rootx px]
  show "red ?t' a = red t a" by (rule f(7))
  show "rb_frame (cset c \<union> set_tree (Node A x (Node B y C))) t ?t'"
    unfolding rb_frame_def
  proof (intro conjI allI impI)
    fix a assume "a \<notin> cset c \<union> set_tree (Node A x (Node B y C))"
    then have "a \<noteq> x" "a \<noteq> y" "c = [] \<or> a \<noteq> q" "a = lft t y \<Longrightarrow> lft t y = rb_sentinel t"
      using qc ly by auto
    then show "rb_nodes ?t' a = rb_nodes t a"
      by (intro rbnode.equality) (cases "c = []"; simp add: f; blast)+
  qed (simp_all add: f)
  show "ctx_at ?t' c y q"
  proof (rule ctx_at_relink [OF c d])
    fix a assume a: "a \<in> cset c"
    then have "c \<noteq> []" "a \<noteq> x" "a \<noteq> y" "a = lft t y \<Longrightarrow> lft t y = rb_sentinel t" using dj ly by auto
    moreover have "fst (hd c) = L \<longleftrightarrow> lft t q = x" "fst (hd c) = R \<longleftrightarrow> rgt t q = x"
      using ctx_at_side [OF c] calculation(1) dj xs by auto
    moreover from this have "lft t q = x \<longleftrightarrow> rgt t q \<noteq> x" by (cases "fst (hd c)") auto
    ultimately show "par ?t' a = par t a"
      and "lft ?t' a = (if a = q \<and> fst (hd c) = L then y else lft t a)"
      and "rgt ?t' a = (if a = q \<and> fst (hd c) = R then y else rgt t a)"
      by (simp_all add: f) blast+
  qed (simp_all add: f)
  have unch: "lft ?t' a = lft t a \<and> rgt ?t' a = rgt t a \<and> par ?t' a = par t a"
    if "a \<in> set_tree A \<union> set_tree C" for a
  proof -
    have "a \<noteq> x" "a \<noteq> y" "a \<notin> set_tree B" using that ne by auto
    then have "a \<noteq> lft t y \<or> lft t y = rb_sentinel t" using ly by auto
    moreover have "c = [] \<or> a \<noteq> q" using that qc dj by auto
    ultimately show ?thesis using \<open>a \<noteq> x\<close> \<open>a \<noteq> y\<close> by (cases "c = []") (simp_all add: f, blast+)
  qed
  have "rbt_at ?t' x (lft t x) A" by (rule rbt_at_frame [OF A]) (simp_all add: f(5) unch)
  moreover have "rbt_at ?t' y (rgt t y) C" by (rule rbt_at_frame [OF C]) (simp_all add: f(5) unch)
  moreover have "rbt_at ?t' x (lft t y) B"
  proof (rule rbt_at_reparent [OF B])
    show "distinct (inorder B)" using dT by simp
    show "par ?t' (lft t y) = x" if "lft t y \<noteq> rb_sentinel t" using that nl by (simp add: f)
    fix a assume a: "a \<in> set_tree B"
    then have "a \<noteq> x" "a \<noteq> y" using ne by auto
    moreover have "c = [] \<or> a \<noteq> q" using a dj qc by auto
    ultimately show "lft ?t' a = lft t a \<and> rgt ?t' a = rgt t a" and "a \<noteq> lft t y \<Longrightarrow> par ?t' a = par t a"
      by (cases "c = []"; simp add: f)+
  qed (simp add: f)
  moreover have "lft ?t' x = lft t x" "rgt ?t' y = rgt t y"
    using dT dj qc by (auto simp: f)
  ultimately show "rbt_at ?t' q y (Node (Node A x B) y C)" using xs xy by (simp add: f)
qed

lemma right_rotate_holds:
  assumes c: "ctx_at t c x q" and T: "rbt_at t q x (Node (Node C y B) x A)"
    and d: "distinct (inorder (plug c (Node (Node C y B) x A)))"
  shows "ctx_at (gfs_rbtree_right_rotate x t) c y q"
    and "rbt_at (gfs_rbtree_right_rotate x t) q y (Node C y (Node B x A))"
    and "rb_frame (cset c \<union> set_tree (Node (Node C y B) x A)) t (gfs_rbtree_right_rotate x t)"
    and "red (gfs_rbtree_right_rotate x t) a = red t a"
proof -
  let ?t' = "gfs_rbtree_right_rotate x t"
  have dj: "cset c \<inter> set_tree (Node (Node C y B) x A) = {}" and dT: "distinct (inorder (Node (Node C y B) x A))"
    using distinct_plugD [OF d] by auto
  have rx: "lft t x = y" and px: "par t x = q" and xs: "x \<noteq> rb_sentinel t" "y \<noteq> rb_sentinel t"
    and A: "rbt_at t x (rgt t x) A" and B: "rbt_at t y (rgt t y) B" and C: "rbt_at t y (lft t y) C"
    using T by auto
  have ne: "x \<notin> set_tree A \<union> set_tree B \<union> set_tree C" "y \<notin> set_tree A \<union> set_tree B \<union> set_tree C"
      "set_tree B \<inter> (set_tree A \<union> set_tree C) = {}"
    using dT by (auto simp flip: set_inorder)
  have rootx: "x = rb_root t \<longleftrightarrow> c = []" using ctx_at_rootD [OF c] dj by auto
  have qc: "c \<noteq> [] \<Longrightarrow> q \<in> cset c" using ctx_at_parent [OF c] by blast
  have ly: "rgt t y = rb_sentinel t \<or> rgt t y \<in> set_tree B" using rbt_at_in [OF B] by blast
  have xy: "x \<noteq> y" using dT by (auto simp flip: set_inorder)
  have nl: "rgt t y \<noteq> x" "rgt t y \<noteq> y" using ly xs dT by (auto simp flip: set_inorder)
  have "x \<noteq> rb_root t \<longrightarrow> par t x \<noteq> x \<and> par t x \<noteq> y" using rootx qc dj px by auto
  note f = right_rotate_fields [OF rx xy nl this, unfolded rootx px]
  show "red ?t' a = red t a" by (rule f(7))
  show "rb_frame (cset c \<union> set_tree (Node (Node C y B) x A)) t ?t'"
    unfolding rb_frame_def
  proof (intro conjI allI impI)
    fix a assume "a \<notin> cset c \<union> set_tree (Node (Node C y B) x A)"
    then have "a \<noteq> x" "a \<noteq> y" "c = [] \<or> a \<noteq> q" "a = rgt t y \<Longrightarrow> rgt t y = rb_sentinel t"
      using qc ly by auto
    then show "rb_nodes ?t' a = rb_nodes t a"
      by (intro rbnode.equality) (cases "c = []"; simp add: f; blast)+
  qed (simp_all add: f)
  show "ctx_at ?t' c y q"
  proof (rule ctx_at_relink [OF c d])
    fix a assume a: "a \<in> cset c"
    then have "c \<noteq> []" "a \<noteq> x" "a \<noteq> y" "a = rgt t y \<Longrightarrow> rgt t y = rb_sentinel t" using dj ly by auto
    moreover have "fst (hd c) = L \<longleftrightarrow> lft t q = x" "fst (hd c) = R \<longleftrightarrow> rgt t q = x"
      using ctx_at_side [OF c] calculation(1) dj xs by auto
    moreover from this have "lft t q = x \<longleftrightarrow> rgt t q \<noteq> x" by (cases "fst (hd c)") auto
    ultimately show "par ?t' a = par t a"
      and "lft ?t' a = (if a = q \<and> fst (hd c) = L then y else lft t a)"
      and "rgt ?t' a = (if a = q \<and> fst (hd c) = R then y else rgt t a)"
      by (simp_all add: f) blast+
  qed (simp_all add: f)
  have unch: "lft ?t' a = lft t a \<and> rgt ?t' a = rgt t a \<and> par ?t' a = par t a"
    if "a \<in> set_tree A \<union> set_tree C" for a
  proof -
    have "a \<noteq> x" "a \<noteq> y" "a \<notin> set_tree B" using that ne by auto
    then have "a \<noteq> rgt t y \<or> rgt t y = rb_sentinel t" using ly by auto
    moreover have "c = [] \<or> a \<noteq> q" using that qc dj by auto
    ultimately show ?thesis using \<open>a \<noteq> x\<close> \<open>a \<noteq> y\<close> by (cases "c = []") (simp_all add: f, blast+)
  qed
  have "rbt_at ?t' x (rgt t x) A" by (rule rbt_at_frame [OF A]) (simp_all add: f(5) unch)
  moreover have "rbt_at ?t' y (lft t y) C" by (rule rbt_at_frame [OF C]) (simp_all add: f(5) unch)
  moreover have "rbt_at ?t' x (rgt t y) B"
  proof (rule rbt_at_reparent [OF B])
    show "distinct (inorder B)" using dT by simp
    show "par ?t' (rgt t y) = x" if "rgt t y \<noteq> rb_sentinel t" using that nl by (simp add: f)
    fix a assume a: "a \<in> set_tree B"
    then have "a \<noteq> x" "a \<noteq> y" using ne by auto
    moreover have "c = [] \<or> a \<noteq> q" using a dj qc by auto
    ultimately show "lft ?t' a = lft t a \<and> rgt ?t' a = rgt t a" and "a \<noteq> rgt t y \<Longrightarrow> par ?t' a = par t a"
      by (cases "c = []"; simp add: f)+
  qed (simp add: f)
  moreover have "rgt ?t' x = rgt t x" "lft ?t' y = lft t y"
    using dT dj qc by (auto simp: f)
  ultimately show "rbt_at ?t' q y (Node C y (Node B x A))" using xs xy by (simp add: f)
qed

end
