(* ===== verification/Rbtree_Insert.thy ===== *)
theory Rbtree_Insert
  imports Rbtree_Shape
begin

text \<open>
  Insertion into the red-black tree. The two sides of the tree are treated at once: \<open>branch d\<close> builds a
  node whose subtree in direction \<open>d\<close> comes first, and \<open>rot d\<close> is the rotation that lifts that
  subtree. The colour reasoning is done on trees with a colour function; the store follows by the
  rotation lemmas.
\<close>

section \<open>Directions\<close>

fun opp :: "dir \<Rightarrow> dir" where
  "opp L = R"
| "opp R = L"

fun branch :: "dir \<Rightarrow> addr tree \<Rightarrow> addr \<Rightarrow> addr tree \<Rightarrow> addr tree" where
  "branch L T a S = Node T a S"
| "branch R T a S = Node S a T"

fun child :: "dir \<Rightarrow> rbt \<Rightarrow> addr \<Rightarrow> addr" where
  "child L t a = lft t a"
| "child R t a = rgt t a"

fun rot :: "dir \<Rightarrow> addr \<Rightarrow> rbt \<Rightarrow> rbt" where
  "rot L = gfs_rbtree_right_rotate"
| "rot R = gfs_rbtree_left_rotate"

lemma dir_neq: "d \<noteq> e \<longleftrightarrow> d = opp e"
  by (cases d; cases e) auto

lemma opp_opp [simp]: "opp (opp d) = d"
  by (cases d) auto

lemma plug_Cons: "plug ((d, a, S) # c) T = plug c (branch d T a S)"
  by (cases d) auto

lemma set_tree_node [simp]: "set_tree (branch d T a S) = insert a (set_tree T \<union> set_tree S)"
  by (cases d) auto

lemma rbt_at_node:
  "rbt_at t q p (branch d T a S) \<longleftrightarrow>
     p = a \<and> a \<noteq> rb_sentinel t \<and> par t a = q \<and> rbt_at t a (child d t a) T \<and> rbt_at t a (child (opp d) t a) S"
  by (cases d) auto

lemma ctx_at_Cons:
  "ctx_at t ((d, a, S) # c) p q \<longleftrightarrow>
     q = a \<and> a \<noteq> rb_sentinel t \<and> child d t a = p \<and> rbt_at t a (child (opp d) t a) S \<and> ctx_at t c a (par t a)"
  by (cases d) auto

lemma rot_holds:
  assumes "ctx_at t c x q" and "rbt_at t q x (branch d (branch d X y S) x U)"
    and "distinct (inorder (plug c (branch d (branch d X y S) x U)))"
  shows "ctx_at (rot d x t) c y q" and "rbt_at (rot d x t) q y (branch d X y (branch d S x U))"
    and "rb_frame (set_tree (plug c (branch d (branch d X y S) x U))) t (rot d x t)"
    and "red (rot d x t) a = red t a"
  using assms left_rotate_holds [of t c x q U S y X] right_rotate_holds [of t c x q X y S U]
  by (cases d; simp add: insert_commute Un_ac)+

lemma inorder_rot: "inorder (branch d X y (branch d S x U)) = inorder (branch d (branch d X y S) x U)"
  by (cases d) auto

section \<open>Colours\<close>

fun root_red :: "(addr \<Rightarrow> bool) \<Rightarrow> addr tree \<Rightarrow> bool" where
  "root_red f Leaf = False"
| "root_red f (Node l a r) = f a"

fun invc :: "(addr \<Rightarrow> bool) \<Rightarrow> addr tree \<Rightarrow> bool" where
  "invc f Leaf = True"
| "invc f (Node l a r) =
     ((f a \<longrightarrow> \<not> root_red f l \<and> \<not> root_red f r) \<and> invc f l \<and> invc f r)"

fun bh :: "(addr \<Rightarrow> bool) \<Rightarrow> addr tree \<Rightarrow> nat" where
  "bh f Leaf = 0"
| "bh f (Node l a r) = bh f l + (if f a then 0 else 1)"

fun invh :: "(addr \<Rightarrow> bool) \<Rightarrow> addr tree \<Rightarrow> bool" where
  "invh f Leaf = True"
| "invh f (Node l a r) = (bh f l = bh f r \<and> invh f l \<and> invh f r)"

lemma colour_cong:
  assumes "\<And>a. a \<in> set_tree T \<Longrightarrow> f a = g a"
  shows "root_red f T = root_red g T" "invc f T = invc g T" "bh f T = bh g T" "invh f T = invh g T"
proof -
  have "root_red f T = root_red g T \<and> invc f T = invc g T \<and> bh f T = bh g T \<and> invh f T = invh g T"
    using assms
  proof (induction T)
    case (Node l a r)
    have "root_red f l = root_red g l" "root_red f r = root_red g r"
      using Node.prems by (cases l; cases r; simp)+
    with Node show ?case by auto
  qed simp
  then show "root_red f T = root_red g T" "invc f T = invc g T" "bh f T = bh g T" "invh f T = invh g T"
    by auto
qed

lemma invc_node [simp]:
  "invc f (branch d T a S) = ((f a \<longrightarrow> \<not> root_red f T \<and> \<not> root_red f S) \<and> invc f T \<and> invc f S)"
  by (cases d) auto

lemma root_red_node [simp]: "root_red f (branch d T a S) = f a"
  by (cases d) auto

lemma invh_node [simp]: "invh f (branch d T a S) = (bh f T = bh f S \<and> invh f T \<and> invh f S)"
  by (cases d) auto

lemma bh_node [simp]: "bh f T = bh f S \<Longrightarrow> bh f (branch d T a S) = bh f T + (if f a then 0 else 1)"
  by (cases d) auto

text \<open>
  The invariants of a context: \<open>cinvc\<close> is the colour invariant with the hole counted as black,
  \<open>cinvh f c n\<close> the height invariant for a hole of black height \<open>n\<close>.
\<close>

definition up_red :: "(addr \<Rightarrow> bool) \<Rightarrow> ctx \<Rightarrow> bool" where
  "up_red f c = (c \<noteq> [] \<and> f (fst (snd (hd c))))"

fun cinvc :: "(addr \<Rightarrow> bool) \<Rightarrow> ctx \<Rightarrow> bool" where
  "cinvc f [] = True"
| "cinvc f ((d, a, S) # c) = ((f a \<longrightarrow> \<not> root_red f S \<and> \<not> up_red f c) \<and> invc f S \<and> cinvc f c)"

fun cinvh :: "(addr \<Rightarrow> bool) \<Rightarrow> ctx \<Rightarrow> nat \<Rightarrow> bool" where
  "cinvh f [] n = True"
| "cinvh f ((d, a, S) # c) n = (bh f S = n \<and> invh f S \<and> cinvh f c (n + (if f a then 0 else 1)))"

lemma up_red_simps [simp]: "\<not> up_red f []" "up_red f ((d, a, S) # c) = f a"
  by (simp_all add: up_red_def)

lemma invc_plug: "invc f (plug c T) \<longleftrightarrow> invc f T \<and> cinvc f c \<and> (up_red f c \<longrightarrow> \<not> root_red f T)"
proof (induction c arbitrary: T)
  case (Cons x c)
  then show ?case by (cases x) (auto simp: plug_Cons)
qed simp

lemma invh_plug: "invh f (plug c T) \<longleftrightarrow> invh f T \<and> cinvh f c (bh f T)"
proof (induction c arbitrary: T)
  case (Cons x c)
  obtain d a S where x: "x = (d, a, S)" by (cases x)
  show ?case
    by (cases "bh f T = bh f S") (auto simp: x plug_Cons Cons.IH)
qed simp

lemma cinvc_cong: "(\<And>a. a \<in> cset c \<Longrightarrow> f a = g a) \<Longrightarrow> cinvc f c = cinvc g c"
proof (induction c)
  case (Cons x c)
  obtain d a S where x: "x = (d, a, S)" by (cases x)
  have "up_red f c = up_red g c" using Cons.prems x by (cases c) (auto simp: up_red_def)
  moreover have "root_red f S = root_red g S" "invc f S = invc g S"
    using Cons.prems x by (auto intro!: colour_cong)
  ultimately show ?case using Cons x by simp
qed simp

lemma cinvh_cong: "(\<And>a. a \<in> cset c \<Longrightarrow> f a = g a) \<Longrightarrow> cinvh f c n = cinvh g c n"
proof (induction c arbitrary: n)
  case (Cons x c)
  obtain d a S where x: "x = (d, a, S)" by (cases x)
  have "bh f S = bh g S" "invh f S = invh g S"
    using Cons.prems x by (auto intro!: colour_cong)
  then show ?case using Cons x by simp
qed simp

lemma colour_upd [simp]:
  assumes "a \<notin> set_tree T"
  shows "root_red (f(a := v)) T = root_red f T" "invc (f(a := v)) T = invc f T"
    "bh (f(a := v)) T = bh f T" "invh (f(a := v)) T = invh f T"
  using assms by (auto intro!: colour_cong split: if_splits)

lemma ctx_colour_upd [simp]:
  assumes "a \<notin> cset c"
  shows "cinvc (f(a := v)) c = cinvc f c" "cinvh (f(a := v)) c n = cinvh f c n"
    "up_red (f(a := v)) c = up_red f c"
proof -
  show "cinvc (f(a := v)) c = cinvc f c" "cinvh (f(a := v)) c n = cinvh f c n"
    using assms by (auto intro!: cinvc_cong cinvh_cong split: if_splits)
  show "up_red (f(a := v)) c = up_red f c" using assms by (cases c rule: cset.cases) auto
qed

section \<open>Rebalancing on trees\<close>

lemma distinct_node:
  "distinct (inorder (branch d T a S)) \<longleftrightarrow>
     distinct (inorder T) \<and> distinct (inorder S) \<and> a \<notin> set_tree T \<and> a \<notin> set_tree S \<and> set_tree T \<inter> set_tree S = {}"
  by (cases d) (auto simp flip: set_inorder)

text \<open>
  What holds around the node the loop is at: the tree is right except that the node, which is red, may
  have a red parent, and the root is black unless it is the node itself.
\<close>

definition almost :: "(addr \<Rightarrow> bool) \<Rightarrow> ctx \<Rightarrow> addr tree \<Rightarrow> bool" where
  "almost f c X \<longleftrightarrow> root_red f X \<and> invc f X \<and> cinvc f c \<and> invh f X \<and> cinvh f c (bh f X)
     \<and> distinct (inorder (plug c X)) \<and> (c \<noteq> [] \<longrightarrow> \<not> f (fst (snd (last c))))"

lemma almost_done: "almost f c X \<Longrightarrow> \<not> up_red f c \<Longrightarrow> invc f (plug c X) \<and> invh f (plug c X)"
  by (simp add: almost_def invc_plug invh_plug)

lemma almost_up:
  assumes "almost f c X" and "up_red f c"
  obtains d1 p S d2 g U c' where "c = (d1, p, S) # (d2, g, U) # c'" and "f p" and "\<not> f g"
proof -
  obtain d1 p S c1 where c: "c = (d1, p, S) # c1" using assms(2) by (cases c) auto
  with assms have p: "f p" "\<not> up_red f c1" and "c1 \<noteq> []" by (auto simp: almost_def)
  then obtain d2 g U c' where "c1 = (d2, g, U) # c'" by (cases c1) auto
  then show ?thesis using that c p by simp
qed

lemma almost_distinct:
  assumes "almost f ((d1, p, S) # (d2, g, U) # c) X"
  shows "distinct (inorder (plug c (branch d2 (branch d1 X p S) g U)))"
    and "p \<notin> set_tree X" "p \<notin> set_tree S" "p \<notin> set_tree U" "p \<notin> cset c" "p \<noteq> g"
    and "g \<notin> set_tree X" "g \<notin> set_tree S" "g \<notin> set_tree U" "g \<notin> cset c"
    and "set_tree X \<inter> cset c = {}" "set_tree U \<inter> cset c = {}" "set_tree S \<inter> cset c = {}"
    and "set_tree X \<inter> set_tree S = {}" "set_tree X \<inter> set_tree U = {}" "set_tree S \<inter> set_tree U = {}"
    and "distinct (inorder X)" "distinct (inorder U)"
proof -
  show d: "distinct (inorder (plug c (branch d2 (branch d1 X p S) g U)))"
    using assms by (simp add: almost_def plug_Cons)
  from distinct_plugD [OF d]
  show "p \<notin> set_tree X" "p \<notin> set_tree S" "p \<notin> set_tree U" "p \<notin> cset c" "p \<noteq> g"
    and "g \<notin> set_tree X" "g \<notin> set_tree S" "g \<notin> set_tree U" "g \<notin> cset c"
    and "set_tree X \<inter> cset c = {}" "set_tree U \<inter> cset c = {}" "set_tree S \<inter> cset c = {}"
    and "set_tree X \<inter> set_tree S = {}" "set_tree X \<inter> set_tree U = {}" "set_tree S \<inter> set_tree U = {}"
    and "distinct (inorder X)" "distinct (inorder U)"
    by (auto simp: distinct_node)
qed

lemma almost_unfold:
  assumes "almost f ((d1, p, S) # (d2, g, U) # c) X" and "f p"
  shows "\<not> f g" "\<not> root_red f S" "invc f S" "invc f U" "cinvc f c" "invh f S" "invh f U"
    and "bh f S = bh f X" "bh f U = bh f X" "cinvh f c (Suc (bh f X))" "invc f X" "invh f X" "root_red f X"
  using assms by (auto simp: almost_def)

lemma almost_uncle:
  assumes a: "almost f ((d1, p, S) # (d2, g, Node V u W) # c) X" and p: "f p" and u: "f u"
  shows "almost (f(p := False, u := False, g := True)) c (branch d2 (branch d1 X p S) g (Node V u W))"
proof -
  let ?f = "f(p := False, u := False, g := True)"
  note d = almost_distinct [OF a] and i = almost_unfold [OF a p]
  have uVW: "u \<notin> set_tree V" "u \<notin> set_tree W" "u \<notin> cset c" "u \<notin> set_tree X" "u \<notin> set_tree S"
      "g \<notin> set_tree V" "g \<notin> set_tree W" "p \<notin> set_tree V" "p \<notin> set_tree W" "u \<noteq> g"
    using d(4-6,8,9,11,12,15,16) d(18) by (auto simp: distinct_node [of L V u W, simplified])
  have "c \<noteq> [] \<longrightarrow> fst (snd (last c)) \<in> cset c" by (induction c rule: cset.induct) auto
  then have "c \<noteq> [] \<longrightarrow> ?f (fst (snd (last c))) = f (fst (snd (last c)))"
    using uVW(3) d(5,10) by auto
  moreover have "\<not> root_red f V" "\<not> root_red f W" "invc f V" "invc f W" "bh f V = bh f W" "bh f V = bh f X"
      "invh f V" "invh f W" "c \<noteq> [] \<longrightarrow> \<not> f (fst (snd (last c)))"
    using i u a by (auto simp: almost_def)
  ultimately show ?thesis
    using i(3,5,6,8,10-12) d(1-3,5-8,10) uVW by (simp add: almost_def)
qed

lemma almost_rot_same:
  assumes a: "almost f ((d, p, S) # (d, g, U) # c) X" and p: "f p" and u: "\<not> root_red f U"
  defines "f' \<equiv> f(p := False, g := True)" and "T \<equiv> branch d X p (branch d S g U)"
  shows "invc f' (plug c T) \<and> invh f' (plug c T)"
proof -
  note d = almost_distinct [OF a] and i = almost_unfold [OF a p]
  show ?thesis
    using i u d(2-10) by (simp add: T_def f'_def invc_plug invh_plug)
qed

lemma almost_rot_opp:
  assumes a: "almost f ((e, p, S) # (d, g, U) # c) (branch d A x B)" and p: "f p" and u: "\<not> root_red f U"
  defines "f' \<equiv> f(x := False, g := True)" and "T \<equiv> branch d (branch e A p S) x (branch d B g U)"
  shows "invc f' (plug c T) \<and> invh f' (plug c T)"
proof -
  note d = almost_distinct [OF a] and i = almost_unfold [OF a p]
  have x: "x \<notin> set_tree A" "x \<notin> set_tree B" "x \<notin> set_tree S" "x \<notin> set_tree U" "x \<notin> cset c" "x \<noteq> p" "x \<noteq> g"
      "g \<notin> set_tree A" "g \<notin> set_tree B" "f x"
    using d i by (auto simp: distinct_node)
  have "\<not> root_red f A" "\<not> root_red f B" "bh f A = bh f B" "bh f (branch d A x B) = bh f A"
    "invc f A" "invc f B" "invh f A" "invh f B"
    using i x by auto
  then show ?thesis
    using i(2-10) u d(3-6,8-10) x p by (simp add: T_def f'_def invc_plug invh_plug)
qed

section \<open>Rebalancing in the store\<close>

lemma red_black_eq [simp]: "red (gfs_rbt_black a t) = (red t)(a := False)" "red (gfs_rbt_red a t) = (red t)(a := True)"
  by (auto simp: fun_eq_iff)

lemma rbt_at_recolour [simp]:
  "rbt_at (gfs_rbt_black a t) q p T = rbt_at t q p T" "rbt_at (gfs_rbt_red a t) q p T = rbt_at t q p T"
proof -
  show "rbt_at (gfs_rbt_black a t) q p T = rbt_at t q p T" by (induction T arbitrary: q p) auto
  show "rbt_at (gfs_rbt_red a t) q p T = rbt_at t q p T" by (induction T arbitrary: q p) auto
qed

lemma ctx_at_recolour [simp]:
  "ctx_at (gfs_rbt_black a t) c p q = ctx_at t c p q" "ctx_at (gfs_rbt_red a t) c p q = ctx_at t c p q"
proof -
  show "ctx_at (gfs_rbt_black a t) c p q = ctx_at t c p q" by (induction t c p q rule: ctx_at.induct) auto
  show "ctx_at (gfs_rbt_red a t) c p q = ctx_at t c p q" by (induction t c p q rule: ctx_at.induct) auto
qed

lemma child_recolour [simp]:
  "child d (gfs_rbt_black a t) x = child d t x" "child d (gfs_rbt_red a t) x = child d t x"
  by (cases d; simp)+

lemma rb_frame_recolour:
  "a \<in> A \<Longrightarrow> rb_frame A t (gfs_rbt_black a t)" "a \<in> A \<Longrightarrow> rb_frame A t (gfs_rbt_red a t)"
  by (auto simp: rb_frame_def gfs_rbt_black_def gfs_rbt_red_def upd_node_def)

lemma rbt_at_root_red: "rbt_at t q p T \<Longrightarrow> \<not> red t (rb_sentinel t) \<Longrightarrow> red t p = root_red (red t) T"
  by (cases T) auto

lemma rbt_at_rootD: "rbt_at t q p T \<Longrightarrow> T \<noteq> Leaf \<Longrightarrow> par t p = q \<and> p \<in> set_tree T \<and> p \<noteq> rb_sentinel t"
  by (cases T) auto

lemma rbt_at_child_neq: "rbt_at t q p T \<Longrightarrow> a \<notin> set_tree T \<Longrightarrow> a \<noteq> rb_sentinel t \<Longrightarrow> p \<noteq> a"
  by (cases T) auto

text \<open>One round of the loop, by the position of the node below its grandparent.\<close>

lemma rebalance_step_uncle:
  assumes "par t x = p" and "par t p = g" and "child d t g = p" and "child (opp d) t g = u" and "u \<noteq> p"
    and "red t u"
  shows "rebalance_step x t = (g, gfs_rbt_red g (gfs_rbt_black u (gfs_rbt_black p t)))"
  using assms by (cases d) (simp_all add: rebalance_step_def Let_def)

lemma rebalance_step_same:
  assumes "par t x = p" and "par t p = g" and "child d t g = p" and "child (opp d) t g = u" and "u \<noteq> p"
    and "\<not> red t u" and "child d t p = x" and "child (opp d) t p \<noteq> x"
  shows "rebalance_step x t = (x, rot d g (gfs_rbt_red g (gfs_rbt_black p t)))"
  using assms by (cases d) (simp_all add: rebalance_step_def Let_def)

lemma rebalance_step_opp:
  assumes "par t x = p" and "par t p = g" and "child d t g = p" and "child (opp d) t g = u" and "u \<noteq> p"
    and "\<not> red t u" and "child (opp d) t p = x" and "par (rot (opp d) p t) p = x" and "par (rot (opp d) p t) x = g"
  shows "rebalance_step x t = (p, rot d g (gfs_rbt_red g (gfs_rbt_black x (rot (opp d) p t))))"
  using assms by (cases d) (simp_all add: rebalance_step_def Let_def)

lemma rebalance_loop_stop: "x = rb_root t \<or> \<not> red t (par t x) \<Longrightarrow> rebalance_loop x t = Some t"
  by (subst rebalance_loop.simps) auto

definition rebalanced :: "rbt \<Rightarrow> addr tree \<Rightarrow> rbt \<Rightarrow> bool" where
  "rebalanced t T t' \<longleftrightarrow> rb_frame (set_tree T) t t' \<and>
     (\<exists>T'. rbt_holds t' T' \<and> inorder T' = inorder T \<and> invc (red t') T' \<and> invh (red t') T')"

lemma rebalancedI:
  assumes "ctx_at t' c p q" and "rbt_at t' q p T'" and "inorder T' = inorder T"
    and "invc (red t') (plug c T') \<and> invh (red t') (plug c T')" and "rb_frame (set_tree (plug c T)) t t'"
  shows "rebalanced t (plug c T) t'"
  unfolding rebalanced_def
  using assms rbt_holds_plug [of t' c T'] inorder_plug_cong [OF assms(3), of c] by blast

text \<open>The last round on the same side, and the one with the double rotation: the loop then stops.\<close>

lemma rebalance_same:
  assumes a: "almost (red t) ((d, p, S) # (d, g, U) # c) X" and p: "red t p" and u: "\<not> root_red (red t) U"
    and ctx: "ctx_at t c g q" and T: "rbt_at t q g (branch d (branch d X p S) g U)"
  defines "t' \<equiv> rot d g (gfs_rbt_red g (gfs_rbt_black p t))"
  shows "rebalanced t (plug c (branch d (branch d X p S) g U)) t'" and "rbt_at t' p (child d t' p) X \<and> \<not> red t' p"
proof -
  let ?t1 = "gfs_rbt_red g (gfs_rbt_black p t)" and ?T = "branch d (branch d X p S) g U"
  note dist = almost_distinct [OF a]
  note r = rot_holds [of ?t1 c g q d X p S U, folded t'_def]
  have h: "ctx_at t' c p q" "rbt_at t' q p (branch d X p (branch d S g U))"
      "rb_frame (set_tree (plug c ?T)) ?t1 t'" "\<And>a. red t' a = red ?t1 a"
    using r ctx T dist(1) by simp_all
  have c': "red t' = (red t)(p := False, g := True)" using h(4) by (auto simp: fun_eq_iff)
  have "rb_frame (set_tree (plug c ?T)) t t'"
    by (rule rb_frame_trans [OF rb_frame_trans [OF rb_frame_recolour(1) rb_frame_recolour(2)] h(3)]) simp_all
  then show "rebalanced t (plug c ?T) t'"
    using almost_rot_same [OF a p u] h(1,2) by (auto intro!: rebalancedI simp: inorder_rot c')
  show "rbt_at t' p (child d t' p) X \<and> \<not> red t' p" using h(2,4) dist(6) by (simp add: rbt_at_node)
qed

lemma rebalance_opp:
  assumes a: "almost (red t) ((opp d, p, S) # (d, g, U) # c) (branch d A x B)" and p: "red t p"
    and u: "\<not> root_red (red t) U" and ctx: "ctx_at t c g q"
    and T: "rbt_at t q g (branch d (branch (opp d) (branch d A x B) p S) g U)"
  defines "t2 \<equiv> rot (opp d) p t"
  defines "t' \<equiv> rot d g (gfs_rbt_red g (gfs_rbt_black x t2))"
  shows "rebalanced t (plug c (branch d (branch (opp d) (branch d A x B) p S) g U)) t'"
    and "par t2 p = x \<and> par t2 x = g" and "par t' p = x \<and> \<not> red t' x"
proof -
  let ?T = "branch d (branch (opp d) (branch d A x B) p S) g U" and ?T2 = "branch d (branch d (branch (opp d) A p S) x B) g U"
  have flip: "branch d V y W = branch (opp d) W y V" for V y W by (cases d) auto
  note dist = almost_distinct [OF a]
  have ctx1: "ctx_at t ((d, g, U) # c) p g" and T1: "rbt_at t g p (branch (opp d) (branch (opp d) B x A) p S)"
    and d1: "distinct (inorder (plug ((d, g, U) # c) (branch (opp d) (branch (opp d) B x A) p S)))"
    using ctx T dist(1) by (simp_all add: ctx_at_Cons rbt_at_node plug_Cons flip)
  note r1 = rot_holds [OF ctx1 T1 d1, folded t2_def]
  have ctx2: "ctx_at t2 c g (par t2 g)" and T2: "rbt_at t2 (par t2 g) g ?T2"
    using r1(1,2) by (auto simp: ctx_at_Cons rbt_at_node flip)
  have io: "inorder ?T2 = inorder ?T" by (cases d) auto
  then have st: "set_tree (plug c ?T2) = set_tree (plug c ?T)"
    by (metis inorder_plug_cong set_inorder)
  show "par t2 p = x \<and> par t2 x = g" using T2 by (simp add: rbt_at_node)
  let ?t3 = "gfs_rbt_red g (gfs_rbt_black x t2)"
  have d2: "distinct (inorder (plug c ?T2))" using dist(1) inorder_plug_cong [OF io] by simp
  note r = rot_holds [of ?t3 c g "par t2 g" d "branch (opp d) A p S" x B U, folded t'_def]
  have h: "ctx_at t' c x (par t2 g)" "rbt_at t' (par t2 g) x (branch d (branch (opp d) A p S) x (branch d B g U))"
      "rb_frame (set_tree (plug c ?T)) ?t3 t'" "\<And>a. red t' a = red ?t3 a"
    using r ctx2 T2 d2 st by simp_all
  have c': "red t' = (red t)(x := False, g := True)" using h(4) r1(4) by (auto simp: fun_eq_iff)
  have f2: "rb_frame (set_tree (plug c ?T)) t t2" using r1(3) by (simp add: plug_Cons flip insert_commute Un_ac)
  have "rb_frame (set_tree (plug c ?T)) t t'"
    by (rule rb_frame_trans [OF f2 rb_frame_trans [OF rb_frame_trans [OF rb_frame_recolour(1) rb_frame_recolour(2)] h(3)]])
      simp_all
  moreover have "inorder (branch d (branch (opp d) A p S) x (branch d B g U)) = inorder ?T" by (cases d) auto
  ultimately show "rebalanced t (plug c ?T) t'"
    using almost_rot_opp [OF a p u] h(1,2) by (intro rebalancedI) (simp_all add: c')
  have "x \<noteq> g" using dist(7) by auto
  then show "par t' p = x \<and> \<not> red t' x" using h(2,4) by (simp add: rbt_at_node)
qed

lemma rebalance_round:
  assumes a: "almost (red t) ((d1, p, S) # (d2, g, U) # c) X" and p: "red t p" and X: "rbt_at t q x X"
    and ctx: "ctx_at t ((d1, p, S) # (d2, g, U) # c) x q" and sen: "\<not> red t (rb_sentinel t)"
  obtains (uncle) t' V u W where "U = Node V u W" and "red t u" and "rebalance_step x t = (g, t')"
      and "t' = gfs_rbt_red g (gfs_rbt_black u (gfs_rbt_black p t))"
    | (last) x' t' where "rebalance_step x t = (x', t')" and "rebalance_loop x' t' = Some t'"
      and "rebalanced t (plug c (branch d2 (branch d1 X p S) g U)) t'"
proof -
  note dist = almost_distinct [OF a]
  have ctx2: "ctx_at t c g (par t g)" and cp: "child d1 t p = x" and pp: "par t p = g" and cg: "child d2 t g = p"
    and q: "q = p" and ns: "p \<noteq> rb_sentinel t" "g \<noteq> rb_sentinel t"
    and S: "rbt_at t p (child (opp d1) t p) S" and U: "rbt_at t g (child (opp d2) t g) U"
    using ctx by (auto simp: ctx_at_Cons)
  have T: "rbt_at t (par t g) g (branch d2 (branch d1 X p S) g U)"
    using X cp cg pp q S U ns by (simp add: rbt_at_node)
  have "X \<noteq> Leaf" using a by (auto simp: almost_def)
  with X q have px: "par t x = p" and xX: "x \<in> set_tree X" using rbt_at_rootD by blast+
  have up: "child (opp d2) t g \<noteq> p" and sx: "child (opp d1) t p \<noteq> x"
    using rbt_at_child_neq [OF U] rbt_at_child_neq [OF S] dist(4,14) xX ns rbt_at_rootD [OF X \<open>X \<noteq> Leaf\<close>] by auto
  have ru: "red t (child (opp d2) t g) = root_red (red t) U" by (rule rbt_at_root_red [OF U sen])
  note step = px pp cg refl up
  show ?thesis
  proof (cases "root_red (red t) U")
    case True
    then obtain V u W where "U = Node V u W" by (cases U) auto
    then show ?thesis using uncle True rebalance_step_uncle [OF step] ru U by auto
  next
    case u: False
    show ?thesis
    proof (cases "d1 = d2")
      case True
      note h = rebalance_same [OF a [unfolded True] p u ctx2 T [unfolded True]]
      let ?t' = "rot d2 g (gfs_rbt_red g (gfs_rbt_black p t))"
      have "par ?t' (child d2 ?t' p) = p \<and> child d2 ?t' p = x"
        using h(2) X \<open>X \<noteq> Leaf\<close> by (cases X) auto
      then show ?thesis
        using last [OF rebalance_step_same [OF step]] rebalance_loop_stop [of x ?t'] h u ru True cp sx by auto
    next
      case False
      then have d1: "d1 = opp d2" by (simp add: dir_neq)
      obtain A B where XAB: "X = branch d2 A x B"
        using X \<open>X \<noteq> Leaf\<close> by (cases X; cases d2) auto
      note h = rebalance_opp [OF a [unfolded d1 XAB] p u ctx2 T [unfolded d1 XAB]]
      show ?thesis
        using last [OF rebalance_step_opp [OF step]] rebalance_loop_stop h u ru cp d1 XAB by auto
    qed
  qed
qed

lemma rebalanced_trans:
  assumes "rb_frame (set_tree T) t t1" and "rebalanced t1 T t'"
  shows "rebalanced t T t'"
  using assms unfolding rebalanced_def by (blast intro: rb_frame_trans)

lemma rebalance_loop_correct:
  assumes "almost (red t) c X" and "ctx_at t c x q" and "rbt_at t q x X" and "\<not> red t (rb_sentinel t)"
  shows "\<exists>t'. rebalance_loop x t = Some t' \<and> rebalanced t (plug c X) t'"
  using assms
proof (induction c arbitrary: t X x q rule: length_induct)
  case (1 c)
  note a = "1.prems"(1) and ctx = "1.prems"(2) and X = "1.prems"(3) and sen = "1.prems"(4)
  have "X \<noteq> Leaf" using a by (auto simp: almost_def)
  then have xX: "x \<in> set_tree X" and px: "par t x = q" using rbt_at_rootD [OF X] by auto
  have xc: "x \<notin> cset c" using a xX distinct_plugD [of c X] by (auto simp: almost_def)
  show ?case
  proof (cases "up_red (red t) c")
    case False
    then have "x = rb_root t \<or> \<not> red t (par t x)"
      using ctx px by (cases "(t, c, x, q)" rule: ctx_at.cases) auto
    then have "rebalance_loop x t = Some t" by (rule rebalance_loop_stop)
    then show ?thesis using rebalancedI [OF ctx X refl almost_done [OF a False]] by auto
  next
    case True
    then obtain d1 p S d2 g U c' where c: "c = (d1, p, S) # (d2, g, U) # c'" and p: "red t p"
      using almost_up [OF a] by metis
    have go: "rebalance_loop x t = (case rebalance_step x t of (x, t) \<Rightarrow> rebalance_loop x t)"
      using True ctx px ctx_at_rootD [OF ctx xc] by (subst rebalance_loop.simps) (auto simp: c ctx_at_Cons)
    have T: "plug c X = plug c' (branch d2 (branch d1 X p S) g U)" by (simp add: c plug_Cons)
    show ?thesis
    proof (rule rebalance_round [OF a [unfolded c] p X ctx [unfolded c] sen])
      fix x' t' assume "rebalance_step x t = (x', t')" "rebalance_loop x' t' = Some t'"
        "rebalanced t (plug c' (branch d2 (branch d1 X p S) g U)) t'"
      then show ?thesis by (simp add: go T)
    next
      fix t' V u W assume U: "U = Node V u W" "red t u" and st: "rebalance_step x t = (g, t')"
        and t': "t' = gfs_rbt_red g (gfs_rbt_black u (gfs_rbt_black p t))"
      let ?X = "branch d2 (branch d1 X p S) g U"
      have "red t' = (red t)(p := False, u := False, g := True)" by (auto simp: t' fun_eq_iff)
      then have "almost (red t') c' ?X" using almost_uncle [OF a [unfolded c U(1)] p U(2)] by (simp only: U)
      moreover have "ctx_at t' c' g (par t g)" "rbt_at t' (par t g) g ?X"
        using ctx X by (auto simp: t' c ctx_at_Cons rbt_at_node)
      moreover have "\<not> red t' (rb_sentinel t')" using ctx sen by (auto simp: t' c ctx_at_Cons)
      ultimately obtain t'' where "rebalance_loop g t' = Some t''" "rebalanced t' (plug c' ?X) t''"
        using "1.IH" c by (metis length_Cons less_Suc_eq)
      moreover have "rb_frame (set_tree (plug c' ?X)) t t'"
        unfolding t' by (rule rb_frame_trans [OF rb_frame_trans [OF rb_frame_recolour(1) rb_frame_recolour(1)] rb_frame_recolour(2)])
          (simp_all add: U)
      ultimately show ?thesis using rebalanced_trans by (auto simp: go st T)
    qed
  qed
qed

end
