(* ===== verification/Rbtree_Index.thy ===== *)
theory Rbtree_Index
  imports Rbtree_Insert
begin

text \<open>
  The red-black tree as an index: the whole of \<open>gfs_rbtree_insert\<close> keeps the red-black invariant and
  puts the node at its place in the order, the searches find what is stored, and the height is
  logarithmic. The interface \<open>key_index\<close> states what the clients of the tree rely on.
\<close>

section \<open>The invariant\<close>

definition rb_tree :: "rbt \<Rightarrow> addr tree \<Rightarrow> bool" where
  "rb_tree t T \<longleftrightarrow> rbt_holds t T \<and> distinct (inorder T) \<and> invc (red t) T \<and> invh (red t) T
     \<and> \<not> root_red (red t) T \<and> \<not> red t (rb_sentinel t)"

lemma rb_tree_init: "rb_tree (gfs_rbtree_init s t) Leaf"
  by (simp add: rb_tree_def rbt_holds_def gfs_rbtree_init_def gfs_rbt_black_def upd_node_def)

lemma rb_tree_sentinel: "rb_tree t T \<Longrightarrow> rb_sentinel t \<notin> set_tree T"
  by (auto simp: rb_tree_def rbt_holds_def dest: rbt_at_sentinel)

text \<open>The black height bounds the height from both sides, so that the height is at most \<open>2 log\<^sub>2 (n + 1)\<close>.\<close>

lemma bh_height: "invc f T \<Longrightarrow> invh f T \<Longrightarrow> height T \<le> 2 * bh f T + (if root_red f T then 1 else 0)"
proof (induction T)
  case (Node l a r)
  then have "height l \<le> 2 * bh f l + (if root_red f l then 1 else 0)"
    and "height r \<le> 2 * bh f r + (if root_red f r then 1 else 0)" by auto
  with Node.prems show ?case by (auto split: if_splits)
qed simp

lemma bh_size: "invh f T \<Longrightarrow> 2 ^ bh f T \<le> size1 T"
proof (induction T)
  case (Node l a r)
  then have "2 ^ bh f l \<le> size1 l" "2 ^ bh f l \<le> size1 r" by auto
  then show ?case by (auto simp: mult_2)
qed simp

lemma rb_tree_height: "rb_tree t T \<Longrightarrow> 2 ^ ((height T + 1) div 2) \<le> size1 T"
proof -
  assume "rb_tree t T"
  then have "(height T + 1) div 2 \<le> bh (red t) T" and s: "2 ^ bh (red t) T \<le> size1 T"
    using bh_height [of "red t" T] bh_size [of "red t" T] by (auto simp: rb_tree_def)
  then have "(2 :: nat) ^ ((height T + 1) div 2) \<le> 2 ^ bh (red t) T" by (intro power_increasing) auto
  with s show ?thesis by linarith
qed

section \<open>The descent of an insertion\<close>

text \<open>The elements left and right of the hole of a context.\<close>

fun cl :: "ctx \<Rightarrow> addr list" where
  "cl [] = []"
| "cl ((L, a, S) # c) = cl c"
| "cl ((R, a, S) # c) = cl c @ inorder S @ [a]"

fun cr :: "ctx \<Rightarrow> addr list" where
  "cr [] = []"
| "cr ((L, a, S) # c) = a # inorder S @ cr c"
| "cr ((R, a, S) # c) = cr c"

lemma inorder_plug: "inorder (plug c T) = cl c @ inorder T @ cr c"
  by (induction c T rule: plug.induct) auto

lemma attach_fields:
  "temp \<noteq> node \<Longrightarrow> lft (attach l temp node t) a =
     (if a = node then rb_sentinel t else if a = temp \<and> l then node else lft t a)"
  "temp \<noteq> node \<Longrightarrow> rgt (attach l temp node t) a =
     (if a = node then rb_sentinel t else if a = temp \<and> \<not> l then node else rgt t a)"
  "par (attach l temp node t) a = (if a = node then temp else par t a)"
  "red (attach l temp node t) a = (if a = node then True else red t a)"
  "key (attach l temp node t) a = key t a"
  "rb_root (attach l temp node t) = rb_root t"
  "rb_sentinel (attach l temp node t) = rb_sentinel t"
  by (auto simp: attach_def Let_def)

lemma attach_holds:
  assumes ctx: "ctx_at t ((d, temp, S) # c) (rb_sentinel t) temp" and n: "node \<noteq> rb_sentinel t"
    and fresh: "node \<notin> cset ((d, temp, S) # c)" and dist: "distinct (inorder (plug ((d, temp, S) # c) Leaf))"
  defines "t' \<equiv> attach (d = L) temp node t"
  shows "ctx_at t' ((d, temp, S) # c) node temp" and "rbt_at t' temp node (Node Leaf node Leaf)"
    and "red t' = (red t)(node := True)" and "rb_frame (insert node (cset ((d, temp, S) # c))) t t'"
proof -
  have ne: "temp \<noteq> node" using fresh by auto
  note f = attach_fields(1,2) [OF ne, of "d = L" t, folded t'_def] attach_fields(3-7) [of "d = L" temp node t, folded t'_def]
  show "ctx_at t' ((d, temp, S) # c) node temp"
  proof (rule ctx_at_relink [OF ctx dist])
    fix a assume "a \<in> cset ((d, temp, S) # c)"
    then have "a \<noteq> node" using fresh by auto
    then show "par t' a = par t a"
      and "lft t' a = (if a = temp \<and> fst (hd ((d, temp, S) # c)) = L then node else lft t a)"
      and "rgt t' a = (if a = temp \<and> fst (hd ((d, temp, S) # c)) = R then node else rgt t a)"
      using ne by (cases d; simp add: f)+
  qed (simp_all add: f)
  show "rbt_at t' temp node (Node Leaf node Leaf)" using n ne by (simp add: f)
  show "red t' = (red t)(node := True)" by (auto simp: f fun_eq_iff)
  have "rb_nodes t' a = rb_nodes t a" if "a \<noteq> node" "a \<noteq> temp" for a
    using that ne by (intro rbnode.equality) (simp_all add: f)
  then show "rb_frame (insert node (cset ((d, temp, S) # c))) t t'" by (auto simp: rb_frame_def f)
qed

text \<open>
  The insertion functions of the trees are all of this kind: from a node they go left when the new
  node is smaller in their order, and they attach the new node below the last one on the way.
\<close>

definition descends :: "(addr \<Rightarrow> addr \<Rightarrow> rbt \<Rightarrow> rbt option) \<Rightarrow> (addr \<Rightarrow> bool) \<Rightarrow> addr \<Rightarrow> rbt \<Rightarrow> bool" where
  "descends ins lt node t \<longleftrightarrow>
     (\<forall>temp. temp \<noteq> node \<longrightarrow> ins temp node t =
        (let p = (if lt temp then lft t temp else rgt t temp)
         in if p = rb_sentinel t then Some (attach (lt temp) temp node t) else ins p node t))"

lemma descend_correct:
  assumes D: "descends ins lt node t" and n: "node \<noteq> rb_sentinel t"
  shows "rbt_at t q p T \<Longrightarrow> T \<noteq> Leaf \<Longrightarrow> ctx_at t c p q \<Longrightarrow> distinct (inorder (plug c T)) \<Longrightarrow>
    node \<notin> set_tree (plug c T) \<Longrightarrow> sorted_wrt (\<lambda>a b. lt a \<longrightarrow> lt b) (inorder T) \<Longrightarrow>
    (\<forall>a \<in> set (cl c). \<not> lt a) \<Longrightarrow> (\<forall>a \<in> set (cr c). lt a) \<Longrightarrow>
    \<exists>t' c' q'. ins p node t = Some t' \<and> ctx_at t' c' node q' \<and> rbt_at t' q' node (Node Leaf node Leaf)
      \<and> c' \<noteq> [] \<and> plug c' Leaf = plug c T \<and> (\<forall>a \<in> set (cl c'). \<not> lt a) \<and> (\<forall>a \<in> set (cr c'). lt a)
      \<and> red t' = (red t)(node := True) \<and> rb_frame (insert node (set_tree (plug c T))) t t'"
proof (induction T arbitrary: c p q)
  case (Node l a r)
  define d where "d = (if lt a then L else R)"
  define U where "U = (if lt a then l else r)"
  define S where "S = (if lt a then r else l)"
  have NT: "Node l a r = branch d U a S" by (simp add: d_def U_def S_def)
  have p: "p = a" and as: "a \<noteq> rb_sentinel t" and an: "a \<noteq> node" using Node.prems by auto
  have ctx: "ctx_at t ((d, a, S) # c) (child d t a) a"
    using Node.prems(1,3) unfolding NT by (auto simp: ctx_at_Cons rbt_at_node)
  have U: "rbt_at t a (child d t a) U" using Node.prems(1) unfolding NT by (simp add: rbt_at_node)
  define Q where "Q = (\<lambda>a b. lt a \<longrightarrow> lt b)"
  have Q: "\<forall>x \<in> set (inorder l). Q x a" "\<forall>x \<in> set (inorder r). Q a x" "sorted_wrt Q (inorder U)"
    using Node.prems(6) [folded Q_def] by (auto simp: sorted_wrt_append U_def)
  have lt_l: "\<And>x. x \<in> set (inorder l) \<Longrightarrow> \<not> lt a \<Longrightarrow> \<not> lt x" and lt_r: "\<And>x. x \<in> set (inorder r) \<Longrightarrow> lt a \<Longrightarrow> lt x"
    using Q(1,2) unfolding Q_def by blast+
  have lr: "\<forall>x \<in> set (cl ((d, a, S) # c)). \<not> lt x" "\<forall>x \<in> set (cr ((d, a, S) # c)). lt x"
    using Node.prems(7,8) lt_l lt_r unfolding d_def S_def by (cases "lt a"; auto)+
  have eq: "ins p node t = (if child d t a = rb_sentinel t then Some (attach (d = L) a node t)
      else ins (child d t a) node t)"
    using D an unfolding p descends_def Let_def d_def by (cases "lt a") simp_all
  have pl: "plug ((d, a, S) # c) U = plug c (Node l a r)" by (simp add: plug_Cons NT)
  show ?case
  proof (cases "U = Leaf")
    case True
    then have cs: "child d t a = rb_sentinel t" using U by simp
    have st: "set_tree (plug c (Node l a r)) = cset ((d, a, S) # c)" using pl True by (metis set_tree_plug tree.set(1) Un_empty_right)
    have "node \<notin> cset ((d, a, S) # c)" "distinct (inorder (plug ((d, a, S) # c) Leaf))"
      using Node.prems(4,5) st pl True by (auto simp del: plug.simps)
    note h = attach_holds [OF ctx [unfolded cs] n this]
    show ?thesis
      unfolding eq using cs lr h pl True st by (metis list.distinct(1))
  next
    case False
    have "child d t a \<noteq> rb_sentinel t" using rbt_at_rootD [OF U False] by auto
    moreover have "U = l \<or> U = r" by (auto simp: U_def)
    ultimately show ?thesis
      using Node.IH(1) [OF _ _ ctx] Node.IH(2) [OF _ _ ctx] U False Node.prems(4,5) lr Q(3) [unfolded Q_def]
      unfolding eq pl [symmetric] by (elim disjE) (simp_all del: plug.simps cl.simps cr.simps)
  qed
qed simp

section \<open>Insertion\<close>

lemma root_red_plug: "c \<noteq> [] \<Longrightarrow> root_red f (plug c T) = f (fst (snd (last c)))"
proof (induction c arbitrary: T)
  case (Cons x c)
  then show ?case by (cases x; cases "c = []") (simp_all add: plug_Cons)
qed simp

lemma descended_almost:
  assumes t: "rb_tree t T" and pl: "plug c Leaf = T" and c: "c \<noteq> []" and n: "node \<notin> set_tree T"
  shows "almost ((red t)(node := True)) c (Node Leaf node Leaf)"
proof -
  have nc: "node \<notin> cset c" using n pl by auto
  have "invc (red t) (plug c Leaf)" "invh (red t) (plug c Leaf)" "\<not> root_red (red t) (plug c Leaf)"
    "distinct (inorder (plug c Leaf))"
    using t by (auto simp: rb_tree_def pl)
  moreover have "node \<notin> set (cl c) \<union> set (cr c)"
    using nc inorder_plug [of c Leaf] set_inorder [of "plug c Leaf"] by auto
  moreover have "fst (snd (last c)) \<in> cset c" using c by (induction c rule: cset.induct) auto
  ultimately show ?thesis
    using nc c by (auto simp: almost_def invc_plug invh_plug root_red_plug inorder_plug)
qed

lemma filter_split:
  assumes "xs = ys @ zs" and "\<forall>a \<in> set ys. \<not> P a" and "\<forall>a \<in> set zs. P a"
  shows "filter (\<lambda>a. \<not> P a) xs = ys" and "filter P xs = zs"
  using assms by (auto simp: filter_empty_conv)

lemma black_root:
  assumes "rbt_holds t T" and "distinct (inorder T)" and "invc (red t) T" and "invh (red t) T" and "T \<noteq> Leaf"
    and "\<not> red t (rb_sentinel t)"
  shows "rb_tree (gfs_rbt_black (rb_root t) t) T" and "rb_root t \<in> set_tree T"
proof -
  obtain l a r where T: "T = Node l a r" "rb_root t = a" using assms(1,5) by (cases T) (auto simp: rbt_holds_def)
  have "a \<notin> set_tree l" "a \<notin> set_tree r" using assms(2) T by (auto simp flip: set_inorder)
  then show "rb_tree (gfs_rbt_black (rb_root t) t) T" and "rb_root t \<in> set_tree T"
    using assms T unfolding rb_tree_def red_black_eq by (auto simp: rbt_holds_def)
qed

lemma insert_empty:
  assumes "rb_tree t Leaf" and "node \<noteq> rb_sentinel t"
  shows "\<exists>t'. gfs_rbtree_insert ins node t = Some t' \<and> rb_tree t' (Node Leaf node Leaf) \<and> rb_frame {node} t t'"
  using assms
  by (auto simp: gfs_rbtree_insert_def Let_def rb_tree_def rbt_holds_def rb_frame_def gfs_rbt_black_def set_right_def
      set_left_def set_parent_def upd_node_def)

lemma insert_correct:
  assumes t: "rb_tree t T" and D: "descends ins lt node t" and n: "node \<notin> set_tree T" "node \<noteq> rb_sentinel t"
    and s: "sorted_wrt (\<lambda>a b. lt a \<longrightarrow> lt b) (inorder T)"
  shows "\<exists>t' T'. gfs_rbtree_insert ins node t = Some t' \<and> rb_tree t' T'
    \<and> inorder T' = filter (\<lambda>a. \<not> lt a) (inorder T) @ node # filter lt (inorder T)
    \<and> rb_frame (insert node (set_tree T)) t t'"
proof (cases "T = Leaf")
  case True
  then show ?thesis using insert_empty [of t node ins] t n by fastforce
next
  case False
  obtain q where h: "rbt_at t q (rb_root t) T" using t by (auto simp: rb_tree_def rbt_holds_def)
  have root: "rb_root t \<noteq> rb_sentinel t" using rbt_at_rootD [OF h False] by simp
  obtain t1 c q' where i: "ins (rb_root t) node t = Some t1" and ctx: "ctx_at t1 c node q'"
    and at: "rbt_at t1 q' node (Node Leaf node Leaf)" and c: "c \<noteq> []" and pl: "plug c Leaf = T"
    and lr: "\<forall>a \<in> set (cl c). \<not> lt a" "\<forall>a \<in> set (cr c). lt a"
    and r1: "red t1 = (red t)(node := True)" and f1: "rb_frame (insert node (set_tree T)) t t1"
    using descend_correct [OF D n(2) h False, of "[]"] t n s by (auto simp: rb_tree_def)
  let ?X = "plug c (Node Leaf node Leaf)"
  have st: "set_tree ?X = insert node (set_tree T)" using pl by auto
  have a: "almost (red t1) c (Node Leaf node Leaf)" using descended_almost [OF t pl c n(1)] by (simp only: r1)
  have sen: "\<not> red t1 (rb_sentinel t1)" using t n(2) f1 fun_cong [OF r1, of "rb_sentinel t1"]
    by (simp add: rb_tree_def rb_frame_def)
  obtain t2 where l: "rebalance_loop node t1 = Some t2" and r: "rebalanced t1 ?X t2"
    using rebalance_loop_correct [OF a ctx at sen] by blast
  obtain T2 where T2: "rbt_holds t2 T2" "inorder T2 = inorder ?X" "invc (red t2) T2" "invh (red t2) T2"
    and f2: "rb_frame (insert node (set_tree T)) t1 t2"
    using r unfolding rebalanced_def st by blast
  have s2: "\<not> red t2 (rb_sentinel t2)"
    using f2 f1 sen rb_tree_sentinel [OF t] n(2) by (simp add: rb_frame_def)
  have "T2 \<noteq> Leaf" using T2(2) by (auto simp: inorder_plug)
  moreover have "distinct (inorder T2)" using a T2(2) by (simp add: almost_def)
  ultimately have ok: "rb_tree (gfs_rbt_black (rb_root t2) t2) T2" and "rb_root t2 \<in> set_tree T2"
    using black_root T2 s2 by blast+
  moreover have "set_tree T2 = insert node (set_tree T)" using T2(2) st by (metis set_inorder)
  ultimately have "rb_frame (insert node (set_tree T)) t (gfs_rbt_black (rb_root t2) t2)"
    using rb_frame_trans [OF rb_frame_trans [OF f1 f2] rb_frame_recolour(1)] by blast
  moreover have "inorder T = cl c @ cr c" using pl inorder_plug [of c Leaf] by simp
  note filter_split [OF this lr]
  ultimately show ?thesis
    using i l ok root T2(2) by (auto simp: gfs_rbtree_insert_def inorder_plug)
qed

section \<open>Searching\<close>

lemma rbt_at_min:
  "rbt_at t q p T \<Longrightarrow> T \<noteq> Leaf \<Longrightarrow> NULL \<notin> set_tree T \<Longrightarrow> gfs_rbtree_min t p = Some (hd (inorder T))"
proof (induction T arbitrary: q p)
  case (Node l a r)
  show ?case
  proof (cases "l = Leaf")
    case True
    then show ?thesis using Node.prems by (subst gfs_rbtree_min.simps) auto
  next
    case False
    then have "lft t a \<noteq> rb_sentinel t" using Node.prems rbt_at_rootD [of t a "lft t a" l] by auto
    then show ?thesis using Node False by (subst gfs_rbtree_min.simps) (auto simp: hd_append)
  qed
qed simp

lemma lookup_loop_correct:
  "rbt_at t q p T \<Longrightarrow> sorted_wrt (\<lambda>a b. key t a < key t b) (inorder T) \<Longrightarrow>
   lookup_loop t k p = Some (case find (\<lambda>a. key t a = k) (inorder T) of None \<Rightarrow> NULL | Some a \<Rightarrow> a)"
proof (induction T arbitrary: q p)
  case Leaf
  then show ?case by (subst lookup_loop.simps) simp
next
  case (Node l a r)
  have s: "sorted_wrt (\<lambda>a b. key t a < key t b) (inorder l)" "sorted_wrt (\<lambda>a b. key t a < key t b) (inorder r)"
    and lo: "\<And>x. x \<in> set_tree l \<Longrightarrow> key t x < key t a" and hi: "\<And>x. x \<in> set_tree r \<Longrightarrow> key t a < key t x"
    using Node.prems(2) by (auto simp: sorted_wrt_append)
  have fl: "find P (xs @ ys) = (case find P xs of None \<Rightarrow> find P ys | Some x \<Rightarrow> Some x)" for P xs and ys :: "addr list"
    by (induction xs) auto
  have nl: "k \<ge> key t a \<Longrightarrow> find (\<lambda>a. key t a = k) (inorder l) = None"
    and nr: "k \<le> key t a \<Longrightarrow> find (\<lambda>a. key t a = k) (inorder r) = None"
    using lo hi leD by (auto simp: find_None_iff)
  show ?case
    using Node s nl [OF less_imp_le] nr [OF less_imp_le] nl [OF eq_refl]
    by (cases rule: linorder_cases [of k "key t a"]; subst lookup_loop.simps) (auto simp: fl split: option.splits)
qed

section \<open>Trees ordered by key\<close>

definition key_tree :: "rbt \<Rightarrow> addr tree \<Rightarrow> bool" where
  "key_tree t T \<longleftrightarrow> rb_tree t T \<and> sorted_wrt (\<lambda>a b. key t a < key t b) (inorder T) \<and> NULL \<notin> set_tree T"

lemma insert_value_descends: "descends gfs_rbtree_insert_value (\<lambda>a. key t node < key t a) node t"
  unfolding descends_def by (subst gfs_rbtree_insert_value.simps) (simp add: Let_def)

lemma key_tree_insert:
  assumes t: "key_tree t T" and n: "node \<notin> set_tree T" "node \<noteq> rb_sentinel t" "node \<noteq> NULL"
    and k: "key t node \<notin> key t ` set_tree T"
  shows "\<exists>t' T'. gfs_rbtree_insert gfs_rbtree_insert_value node t = Some t' \<and> key_tree t' T'
    \<and> set_tree T' = insert node (set_tree T) \<and> rb_frame (insert node (set_tree T)) t t'"
proof -
  have s: "sorted_wrt (\<lambda>a b. key t a < key t b) (inorder T)" using t by (simp add: key_tree_def)
  have "sorted_wrt (\<lambda>a b. key t node < key t a \<longrightarrow> key t node < key t b) (inorder T)"
    by (rule sorted_wrt_mono_rel [OF _ s]) (auto intro: order.strict_trans)
  moreover have "rb_tree t T" using t by (simp add: key_tree_def)
  ultimately obtain t' T' where i: "gfs_rbtree_insert gfs_rbtree_insert_value node t = Some t'"
    and T': "rb_tree t' T'" and io: "inorder T' = filter (\<lambda>a. \<not> key t node < key t a) (inorder T)
        @ node # filter (\<lambda>a. key t node < key t a) (inorder T)"
    and f: "rb_frame (insert node (set_tree T)) t t'"
    using insert_correct [OF _ insert_value_descends n(1,2)] by blast
  have keys: "key t' a = key t a" for a using f by (simp add: rb_frame_def)
  have lt: "key t x < key t node" if "x \<in> set_tree T" "\<not> key t node < key t x" for x
    using that k by (metis image_eqI linorder_neqE)
  let ?lo = "filter (\<lambda>a. \<not> key t node < key t a) (inorder T)" and ?hi = "filter (\<lambda>a. key t node < key t a) (inorder T)"
  have lo: "\<forall>x \<in> set ?lo. key t x < key t node" and hi: "\<forall>y \<in> set ?hi. key t node < key t y"
    using lt by auto
  then have "\<forall>x \<in> set ?lo. \<forall>y \<in> set (node # ?hi). key t x < key t y"
    by (metis order.strict_trans set_ConsD)
  then have "sorted_wrt (\<lambda>a b. key t a < key t b) (inorder T')"
    unfolding io sorted_wrt_append sorted_wrt.simps using s hi sorted_wrt_filter by blast
  moreover have "set_tree T' = insert node (set_tree T)"
    using io by (auto simp flip: set_inorder)
  ultimately show ?thesis using i T' f n(3) t by (auto simp: key_tree_def keys)
qed

lemma key_tree_set_key:
  assumes "key_tree t T" and "a \<notin> set_tree T"
  shows "key_tree (set_key a k t) T"
proof -
  have "rbt_at (set_key a k t) q p T = rbt_at t q p T" for q p
    by (induction T arbitrary: q p) simp_all
  moreover have "red (set_key a k t) = red t" by auto
  moreover have "sorted_wrt (\<lambda>x y. key (set_key a k t) x < key (set_key a k t) y) (inorder T)"
    by (rule sorted_wrt_mono_rel [of _ "\<lambda>x y. key t x < key t y"]) (use assms in \<open>auto simp: key_tree_def\<close>)
  ultimately show ?thesis using assms(1) unfolding key_tree_def rb_tree_def rbt_holds_def by simp
qed

lemma lookup_value_find:
  assumes "key_tree t T"
  shows "gfs_rbtree_lookup_value t k =
    Some (case find (\<lambda>a. key t a = k) (inorder T) of None \<Rightarrow> NULL | Some a \<Rightarrow> a)"
  using assms lookup_loop_correct [of t _ "rb_root t" T k]
  by (auto simp: key_tree_def rb_tree_def rbt_holds_def gfs_rbtree_lookup_value_def)

lemma key_tree_inj: "key_tree t T \<Longrightarrow> a \<in> set_tree T \<Longrightarrow> b \<in> set_tree T \<Longrightarrow> key t a = key t b \<Longrightarrow> a = b"
proof -
  assume "key_tree t T" and ab: "a \<in> set_tree T" "b \<in> set_tree T" "key t a = key t b"
  then have "sorted_wrt (<) (map (key t) (inorder T))" by (simp add: key_tree_def sorted_wrt_map)
  then have "inj_on (key t) (set (inorder T))" by (simp add: strict_sorted_iff distinct_map)
  then show "a = b" using ab by (auto dest: inj_onD)
qed

lemma lookup_value_hit: "key_tree t T \<Longrightarrow> a \<in> set_tree T \<Longrightarrow> gfs_rbtree_lookup_value t (key t a) = Some a"
proof -
  assume t: "key_tree t T" and a: "a \<in> set_tree T"
  then obtain b where b: "find (\<lambda>x. key t x = key t a) (inorder T) = Some b"
    using find_None_iff [of "\<lambda>x. key t x = key t a" "inorder T"] by auto
  then have "b \<in> set (inorder T) \<and> key t b = key t a"
    unfolding find_Some_iff by (metis nth_mem)
  then have "b = a" using key_tree_inj [OF t] a by auto
  then show ?thesis using lookup_value_find [OF t] b by simp
qed

lemma lookup_value_miss: "key_tree t T \<Longrightarrow> k \<notin> key t ` set_tree T \<Longrightarrow> gfs_rbtree_lookup_value t k = Some NULL"
  using find_None_iff [of "\<lambda>x. key t x = k" "inorder T"] by (auto simp: lookup_value_find)

section \<open>The interface of the index\<close>

text \<open>
  What a client of the tree relies on: \<open>at s A\<close> says that the nodes in \<open>A\<close> are stored, a search
  returns the stored node with the key or \<open>NULL\<close>, writing the key of a node that is not stored
  changes nothing else, and inserting a node with a new key stores it.
\<close>

locale key_index =
  fixes at :: "'s \<Rightarrow> addr set \<Rightarrow> bool" and keyof :: "'s \<Rightarrow> addr \<Rightarrow> u32" and node_ok :: "'s \<Rightarrow> addr \<Rightarrow> bool"
    and setk :: "addr \<Rightarrow> u32 \<Rightarrow> 's \<Rightarrow> 's" and ins :: "addr \<Rightarrow> 's \<Rightarrow> 's option" and look :: "'s \<Rightarrow> u32 \<Rightarrow> addr option"
  assumes hit: "at s A \<Longrightarrow> a \<in> A \<Longrightarrow> look s (keyof s a) = Some a"
    and miss: "at s A \<Longrightarrow> k \<notin> keyof s ` A \<Longrightarrow> look s k = Some NULL"
    and null: "at s A \<Longrightarrow> NULL \<notin> A"
    and setk_at: "at s A \<Longrightarrow> a \<notin> A \<Longrightarrow> at (setk a k s) A"
    and setk_key: "keyof (setk a k s) b = (if b = a then k else keyof s b)"
    and setk_ok: "node_ok (setk a k s) b = node_ok s b"
    and ins_at: "at s A \<Longrightarrow> a \<notin> A \<Longrightarrow> node_ok s a \<Longrightarrow> keyof s a \<notin> keyof s ` A \<Longrightarrow>
      \<exists>s'. ins a s = Some s' \<and> at s' (insert a A) \<and> keyof s' = keyof s \<and> (\<forall>b. node_ok s' b = node_ok s b)"
begin

lemma look_cases:
  assumes "at s A"
  obtains (found) a where "a \<in> A" and "keyof s a = k" and "look s k = Some a"
    | (absent) "k \<notin> keyof s ` A" and "look s k = Some NULL"
  using assms hit miss by (cases "k \<in> keyof s ` A") auto

lemma add_new:
  assumes at: "at s A" and a: "a \<notin> A" and ok: "node_ok s a" and k: "k \<notin> keyof s ` A"
  shows "\<exists>s'. ins a (setk a k s) = Some s' \<and> at s' (insert a A) \<and> keyof s' = (keyof s)(a := k)
    \<and> (\<forall>b. node_ok s' b = node_ok s b) \<and> look s' k = Some a \<and> (\<forall>k'. k' \<noteq> k \<longrightarrow> look s' k' = look s k')"
proof -
  have keys: "keyof (setk a k s) = (keyof s)(a := k)" by (auto simp: setk_key)
  have img: "keyof (setk a k s) ` A = keyof s ` A" using a by (auto simp: setk_key)
  have "keyof (setk a k s) a \<notin> keyof (setk a k s) ` A" using k unfolding img by (simp add: setk_key)
  then obtain s' where s': "ins a (setk a k s) = Some s'" "at s' (insert a A)" "keyof s' = (keyof s)(a := k)"
      "\<forall>b. node_ok s' b = node_ok s b"
    using ins_at [OF setk_at [OF at a] a, of k] ok unfolding setk_ok keys by blast
  have "look s' k = Some a" using hit [OF s'(2), of a] s'(3) by simp
  moreover have "look s' k' = look s k'" if "k' \<noteq> k" for k'
  proof (rule look_cases [OF at, of k'])
    fix b assume "b \<in> A" "keyof s b = k'" "look s k' = Some b"
    then show "look s' k' = look s k'" using hit [OF s'(2), of b] s'(3) a by (auto split: if_splits)
  next
    assume "k' \<notin> keyof s ` A" "look s k' = Some NULL"
    then show "look s' k' = look s k'" using miss [OF s'(2), of k'] s'(3) a that by (auto split: if_splits)
  qed
  ultimately show ?thesis using s' by blast
qed

end

definition tree_at :: "rbt \<Rightarrow> addr set \<Rightarrow> bool" where
  "tree_at t A \<longleftrightarrow> (\<exists>T. key_tree t T \<and> set_tree T = A)"

definition tree_node :: "rbt \<Rightarrow> addr \<Rightarrow> bool" where
  "tree_node t a \<longleftrightarrow> a \<noteq> NULL \<and> a \<noteq> rb_sentinel t"

interpretation kt: key_index tree_at "\<lambda>t. key t" tree_node set_key
  "gfs_rbtree_insert gfs_rbtree_insert_value" gfs_rbtree_lookup_value
proof (unfold_locales, goal_cases)
  case (1 s A a)
  then show ?case by (auto simp: tree_at_def lookup_value_hit)
next
  case (2 s A k)
  then show ?case by (auto simp: tree_at_def lookup_value_miss)
next
  case (3 s A)
  then show ?case by (auto simp: tree_at_def key_tree_def)
next
  case (4 s A a k)
  then show ?case by (auto simp: tree_at_def intro: key_tree_set_key)
next
  case (5 a k s b)
  then show ?case by simp
next
  case (6 a k s b)
  then show ?case by (simp add: tree_node_def)
next
  case (7 s A a)
  then obtain T where T: "key_tree s T" "set_tree T = A" by (auto simp: tree_at_def)
  with 7 obtain t' T' where "gfs_rbtree_insert gfs_rbtree_insert_value a s = Some t'" "key_tree t' T'"
      "set_tree T' = insert a A" "rb_frame (insert a A) s t'"
    using key_tree_insert [OF T(1), of a] by (auto simp: tree_node_def)
  then show ?case by (auto simp: tree_at_def tree_node_def rb_frame_def fun_eq_iff)
qed

lemma tree_at_init: "tree_at (gfs_rbtree_init s t) {}"
  unfolding tree_at_def key_tree_def using rb_tree_init by fastforce

section \<open>Properties\<close>


definition sample_tree :: rbt where
  "sample_tree = \<lparr>rb_nodes = (\<lambda>a.
       if a = 1 then \<lparr>nd_key = 10, nd_left = 100, nd_right = 100, nd_parent = 2, nd_red = True\<rparr>
       else if a = 2 then \<lparr>nd_key = 20, nd_left = 1, nd_right = 3, nd_parent = 0, nd_red = False\<rparr>
       else if a = 3 then \<lparr>nd_key = 30, nd_left = 100, nd_right = 100, nd_parent = 2, nd_red = True\<rparr>
       else \<lparr>nd_key = 7, nd_left = 0, nd_right = 0, nd_parent = 0, nd_red = False\<rparr>),
     rb_root = 2, rb_sentinel = 100\<rparr>"

lemma sample_tree_ok: "key_tree sample_tree (Node (Node Leaf 1 Leaf) 2 (Node Leaf 3 Leaf))"
  by (simp add: sample_tree_def key_tree_def rb_tree_def rbt_holds_def)


text \<open>
  C22: in such a tree \<open>gfs_rbtree_lookup_value\<close> ends; it returns a node exactly when a
  stored node has the key, and then it is that node; otherwise it returns \<open>NULL\<close>.
\<close>

theorem rbtree_lookup_complete:
  assumes "key_tree t T"
  shows "\<exists>p. gfs_rbtree_lookup_value t k = Some p
    \<and> (p = NULL \<and> (\<forall>a \<in> set_tree T. key t a \<noteq> k) \<or> p \<in> set_tree T \<and> key t p = k)"
proof (cases "k \<in> key t ` set_tree T")
  case True
  then show ?thesis using lookup_value_hit [OF assms] by auto
next
  case False
  then show ?thesis using lookup_value_miss [OF assms False] by auto
qed

theorem rbtree_lookup_complete_witness: "gfs_rbtree_lookup_value sample_tree 30 = Some 3"
  using rbtree_lookup_complete [OF sample_tree_ok, of 30] by (auto simp: sample_tree_def)



end
