(* ===== verification/Rbtree_Delete.thy ===== *)
theory Rbtree_Delete
  imports Rbtree_Index
begin

text \<open>
  Deletion from the red-black tree. After a black node has been cut out, one subtree has a black height
  that is one too small; \<open>lacking\<close> describes a tree with such a subtree in a context, and the fixup loop
  moves the defect towards the root or repairs it. The cut itself replaces the node by its successor
  in the store.
\<close>

section \<open>A subtree that lacks a black node\<close>

fun invc2 :: "(addr \<Rightarrow> bool) \<Rightarrow> addr tree \<Rightarrow> bool" where
  "invc2 f Leaf = True"
| "invc2 f (Node l a r) = (invc f l \<and> invc f r)"

definition lacking :: "(addr \<Rightarrow> bool) \<Rightarrow> ctx \<Rightarrow> addr tree \<Rightarrow> bool" where
  "lacking f c X \<longleftrightarrow> invc2 f X \<and> invh f X \<and> cinvc f c \<and> cinvh f c (Suc (bh f X))
     \<and> distinct (inorder (plug c X)) \<and> (c \<noteq> [] \<longrightarrow> \<not> f (fst (snd (last c))))"

lemma invc2_node [simp]: "invc2 f (branch d T a S) \<longleftrightarrow> invc f T \<and> invc f S"
  by (cases d) auto

lemma invc2_black: "invc2 f X \<Longrightarrow> \<not> root_red f X \<Longrightarrow> invc f X"
  by (cases X) auto

lemma last_cset: "c \<noteq> [] \<Longrightarrow> fst (snd (last c)) \<in> cset c"
  by (induction c rule: cset.induct) auto

lemma last_upd: "c \<noteq> [] \<Longrightarrow> a \<notin> cset c \<Longrightarrow> (f(a := v)) (fst (snd (last c))) = f (fst (snd (last c)))"
  using last_cset by fastforce

lemma lacking_done:
  assumes "lacking f c X" and "root_red f X \<or> c = []"
  defines "f' \<equiv> (case X of Leaf \<Rightarrow> f | Node l a r \<Rightarrow> f(a := False))"
  shows "invc f' (plug c X) \<and> invh f' (plug c X) \<and> \<not> root_red f' (plug c X)"
proof (cases X)
  case Leaf
  then show ?thesis using assms by (simp add: f'_def)
next
  case (Node l a r)
  have "distinct (inorder (plug c X))" using assms(1) by (simp add: lacking_def)
  from distinct_plugD [OF this] have "a \<notin> set_tree l" "a \<notin> set_tree r" "a \<notin> cset c"
    using Node by (auto simp flip: set_inorder)
  then show ?thesis
    using assms last_upd [of c a f False] unfolding Node f'_def
    by (cases "c = []") (auto simp: lacking_def invc_plug invh_plug root_red_plug)
qed

lemma sibling_distinct:
  assumes "lacking f ((d, p, branch d C w D) # c) X"
  shows "distinct (inorder (plug c (branch d X p (branch d C w D))))"
    and "p \<notin> set_tree X" "p \<notin> set_tree C" "p \<notin> set_tree D" "p \<notin> cset c" "p \<noteq> w"
    and "w \<notin> set_tree X" "w \<notin> set_tree C" "w \<notin> set_tree D" "w \<notin> cset c"
    and "set_tree X \<inter> cset c = {}" "set_tree C \<inter> cset c = {}" "set_tree D \<inter> cset c = {}"
    and "set_tree X \<inter> set_tree C = {}" "set_tree X \<inter> set_tree D = {}" "set_tree C \<inter> set_tree D = {}"
    and "distinct (inorder C)" "distinct (inorder D)"
proof -
  show d: "distinct (inorder (plug c (branch d X p (branch d C w D))))"
    using assms by (simp add: lacking_def plug_Cons)
  from distinct_plugD [OF d]
  show "p \<notin> set_tree X" "p \<notin> set_tree C" "p \<notin> set_tree D" "p \<notin> cset c" "p \<noteq> w"
    and "w \<notin> set_tree X" "w \<notin> set_tree C" "w \<notin> set_tree D" "w \<notin> cset c"
    and "set_tree X \<inter> cset c = {}" "set_tree C \<inter> cset c = {}" "set_tree D \<inter> cset c = {}"
    and "set_tree X \<inter> set_tree C = {}" "set_tree X \<inter> set_tree D = {}" "set_tree C \<inter> set_tree D = {}"
    and "distinct (inorder C)" "distinct (inorder D)"
    by (auto simp: distinct_node)
qed

lemma invc2_upd [simp]: "a \<notin> set_tree T \<Longrightarrow> invc2 (f(a := v)) T = invc2 f T"
  by (cases T) auto

lemma lacking_sibling:
  assumes "lacking f ((d, p, S) # c) X"
  obtains C w D where "S = branch d C w D"
proof -
  have "bh f S = Suc (bh f X)" using assms by (simp add: lacking_def)
  then show ?thesis using that by (cases S; cases d) auto
qed

lemma lacking_unfold:
  assumes "lacking f ((d, p, branch d C w D) # c) X"
  shows "invc2 f X" "invh f X" "invc f C" "invc f D" "cinvc f c" "invh f C" "invh f D" "bh f C = bh f D"
    and "bh f C + (if f w then 0 else 1) = Suc (bh f X)" "f p \<Longrightarrow> \<not> f w \<and> \<not> up_red f c"
    and "cinvh f c (Suc (bh f X) + (if f p then 0 else 1))" "f w \<Longrightarrow> \<not> root_red f C \<and> \<not> root_red f D"
    and "c = [] \<Longrightarrow> \<not> f p" "c \<noteq> [] \<Longrightarrow> \<not> f (fst (snd (last c)))"
  using assms by (auto simp: lacking_def split: if_splits)

lemma lacking_red_sibling:
  assumes l: "lacking f ((d, p, branch d C w D) # c) X" and w: "f w"
  shows "lacking (f(w := False, p := True)) ((d, p, C) # (d, w, D) # c) X"
proof -
  note dist = sibling_distinct [OF l] and u = lacking_unfold [OF l]
  have "c \<noteq> [] \<Longrightarrow> \<not> (f(w := False, p := True)) (fst (snd (last c)))"
    using u(14) last_cset [of c] dist(5,10) by auto
  moreover have "inorder (plug ((d, p, C) # (d, w, D) # c) X) = inorder (plug c (branch d X p (branch d C w D)))"
    unfolding plug_Cons by (rule inorder_plug_cong) (simp add: inorder_rot)
  moreover have "\<not> f p" using u(10) w by blast
  ultimately show ?thesis
    using u w dist by (auto simp: lacking_def)
qed

lemma lacking_recolour:
  assumes l: "lacking f ((d, p, branch d C w D) # c) X" and w: "\<not> f w" "\<not> root_red f C" "\<not> root_red f D"
    and X: "\<not> root_red f X"
  shows "lacking (f(w := True)) c (branch d X p (branch d C w D))"
proof -
  note dist = sibling_distinct [OF l] and u = lacking_unfold [OF l]
  have "invc f X" using u(1) X by (rule invc2_black)
  then show ?thesis
    using u w dist last_upd [of c w f True] by (auto simp: lacking_def)
qed

lemma lacking_near:
  assumes l: "lacking f ((d, p, branch d (branch d C1 v C2) w D) # c) X" and w: "\<not> f w" "f v" "\<not> root_red f D"
  shows "lacking (f(v := False, w := True)) ((d, p, branch d C1 v (branch d C2 w D)) # c) X"
proof -
  note dist = sibling_distinct [OF l] and u = lacking_unfold [OF l]
  have v: "v \<noteq> w" "v \<noteq> p" "v \<notin> set_tree C1" "v \<notin> set_tree C2" "v \<notin> set_tree D" "v \<notin> set_tree X" "v \<notin> cset c"
      "w \<notin> set_tree C1" "w \<notin> set_tree C2"
    using dist by (auto simp: distinct_node)
  have "c \<noteq> [] \<Longrightarrow> \<not> (f(v := False, w := True)) (fst (snd (last c)))"
    using u(14) last_cset [of c] dist(10) v(7) by auto
  moreover have "inorder (plug ((d, p, branch d C1 v (branch d C2 w D)) # c) X)
      = inorder (plug c (branch d X p (branch d (branch d C1 v C2) w D)))"
    unfolding plug_Cons by (rule inorder_plug_cong) (cases d; simp)
  ultimately show ?thesis
    using u w dist v by (auto simp: lacking_def)
qed

lemma lacking_far:
  assumes l: "lacking f ((d, p, branch d C w D) # c) X" and D: "D = Node V u W" "f u" and w: "\<not> f w"
    and X: "\<not> root_red f X"
  defines "f' \<equiv> f(w := f p, p := False, u := False)" and "T \<equiv> branch d (branch d X p C) w D"
  shows "invc f' (plug c T) \<and> invh f' (plug c T) \<and> \<not> root_red f' (plug c T)"
proof -
  note dist = sibling_distinct [OF l] and i = lacking_unfold [OF l]
  have u: "u \<noteq> w" "u \<noteq> p" "u \<notin> set_tree V" "u \<notin> set_tree W" "u \<notin> set_tree C" "u \<notin> set_tree X" "u \<notin> cset c"
      "w \<notin> set_tree V" "w \<notin> set_tree W" "p \<notin> set_tree V" "p \<notin> set_tree W"
    using dist D(1) by (auto simp flip: set_inorder)
  have "invc f X" using i(1) X by (rule invc2_black)
  moreover have "c \<noteq> [] \<Longrightarrow> \<not> f' (fst (snd (last c)))"
    using i(14) last_cset [of c] dist(5,10) u(7) by (auto simp: f'_def)
  moreover have "bh f V = bh f W" "bh f V = bh f X" "invc f V" "invc f W" "invh f V" "invh f W"
    "\<not> root_red f V" "\<not> root_red f W"
    using i D w by auto
  ultimately show ?thesis
    using i w D dist u unfolding T_def f'_def
    by (cases "c = []") (auto simp: invc_plug invh_plug root_red_plug)
qed

section \<open>One round of the fixup\<close>

text \<open>The two mirrored bodies of the loop are one, by the side of the defect; it has two halves.\<close>

definition fix1 :: "dir \<Rightarrow> addr \<Rightarrow> rbt \<Rightarrow> addr \<times> rbt" where
  "fix1 d x t =
     (let w = child (opp d) t (par t x)
      in if red t w
         then let t = gfs_rbt_black w t;
                  t = gfs_rbt_red (par t x) t;
                  t = rot (opp d) (par t x) t
              in (child (opp d) t (par t x), t)
         else (w, t))"

definition fix2 :: "dir \<Rightarrow> addr \<Rightarrow> addr \<Rightarrow> rbt \<Rightarrow> addr \<times> rbt" where
  "fix2 d x w t =
     (if \<not> red t (child d t w) \<and> \<not> red t (child (opp d) t w)
      then (par t x, gfs_rbt_red w t)
      else
        let (w, t) = (if \<not> red t (child (opp d) t w)
                      then let t = gfs_rbt_black (child d t w) t;
                               t = gfs_rbt_red w t;
                               t = rot d w t
                           in (child (opp d) t (par t x), t)
                      else (w, t));
            t = gfs_rbt_copy_color w (par t x) t;
            t = gfs_rbt_black (par t x) t;
            t = gfs_rbt_black (child (opp d) t w) t;
            t = rot (opp d) (par t x) t
        in (rb_root t, t))"

lemma fixup_halves:
  "fixup_left x t = (case fix1 L x t of (w, t) \<Rightarrow> fix2 L x w t)"
  "fixup_right x t = (case fix1 R x t of (w, t) \<Rightarrow> fix2 R x w t)"
  by (simp_all add: fixup_left_def fixup_right_def fix1_def fix2_def Let_def conj_commute split: prod.splits if_splits)

text \<open>The defect in the store: \<open>x\<close> is the root of the lacking subtree, and its parent is right even for the sentinel.\<close>

definition hole :: "rbt \<Rightarrow> ctx \<Rightarrow> addr \<Rightarrow> addr tree \<Rightarrow> bool" where
  "hole t c x X \<longleftrightarrow> (\<exists>q. ctx_at t c x q \<and> rbt_at t q x X \<and> (c \<noteq> [] \<longrightarrow> par t x = q))
     \<and> lacking (red t) c X \<and> \<not> red t (rb_sentinel t)"

lemma hole_Cons:
  "hole t ((d, p, S) # c) x X \<longleftrightarrow> ctx_at t c p (par t p) \<and> rbt_at t (par t p) p (branch d X p S) \<and> child d t p = x
     \<and> par t x = p \<and> lacking (red t) ((d, p, S) # c) X \<and> \<not> red t (rb_sentinel t)"
  by (auto simp: hole_def ctx_at_Cons rbt_at_node)

lemma rot_opp:
  assumes "ctx_at t c p q" and "rbt_at t q p (branch d X p (branch d C w D))"
    and "distinct (inorder (plug c (branch d X p (branch d C w D))))"
  shows "ctx_at (rot (opp d) p t) c w q" and "rbt_at (rot (opp d) p t) q w (branch d (branch d X p C) w D)"
    and "rb_frame (set_tree (plug c (branch d X p (branch d C w D)))) t (rot (opp d) p t)"
    and "red (rot (opp d) p t) = red t"
proof -
  have flip: "branch (opp e) U a V = branch e V a U" for e U a V by (cases e) auto
  note r = rot_holds [of t c p q "opp d" D w C X, unfolded flip]
  show "ctx_at (rot (opp d) p t) c w q" and "rbt_at (rot (opp d) p t) q w (branch d (branch d X p C) w D)"
    and "rb_frame (set_tree (plug c (branch d X p (branch d C w D)))) t (rot (opp d) p t)"
    and "red (rot (opp d) p t) = red t"
    using r assms by (auto simp: fun_eq_iff)
qed

lemma sentinel_notin_plug: "ctx_at t c p q \<Longrightarrow> rbt_at t q p T \<Longrightarrow> rb_sentinel t \<notin> set_tree (plug c T)"
  using ctx_at_sentinel rbt_at_sentinel by fastforce

lemma frame_sentinel:
  "rb_frame (set_tree (plug c T)) t t' \<Longrightarrow> ctx_at t c p q \<Longrightarrow> rbt_at t q p T \<Longrightarrow>
   rb_nodes t' (rb_sentinel t) = rb_nodes t (rb_sentinel t) \<and> rb_sentinel t' = rb_sentinel t"
  using sentinel_notin_plug by (auto simp: rb_frame_def)

lemma fix1_correct:
  assumes h: "hole t ((d, p, S) # c) x X"
  obtains C w D c1 t1 where "fix1 d x t = (w, t1)" and "hole t1 ((d, p, branch d C w D) # c1) x X" and "\<not> red t1 w"
    and "c1 = c \<or> red t1 p" and "inorder (plug ((d, p, branch d C w D) # c1) X) = inorder (plug ((d, p, S) # c) X)"
    and "rb_frame (set_tree (plug ((d, p, S) # c) X)) t t1" and "red t1 x = red t x"
proof -
  have l: "lacking (red t) ((d, p, S) # c) X" and px: "par t x = p" and cx: "child d t p = x"
    and ctx: "ctx_at t c p (par t p)" and T: "rbt_at t (par t p) p (branch d X p S)" and sen: "\<not> red t (rb_sentinel t)"
    using h by (auto simp: hole_Cons)
  obtain C w D where S: "S = branch d C w D" by (rule lacking_sibling [OF l])
  have w: "child (opp d) t p = w" using T by (simp add: S rbt_at_node)
  show ?thesis
  proof (cases "red t w")
    case False
    then have "fix1 d x t = (w, t)" by (simp add: fix1_def px w)
    then show ?thesis using that [of w t C D c] h False by (simp add: S)
  next
    case True
    let ?t = "gfs_rbt_red p (gfs_rbt_black w t)" and ?U = "branch d X p (branch d C w D)"
    define t1 where "t1 = rot (opp d) p ?t"
    note dist = sibling_distinct [OF l [unfolded S]] and u = lacking_unfold [OF l [unfolded S]]
    note r = rot_opp [of ?t c p "par t p" d X C w D, folded t1_def]
    have r': "ctx_at t1 c w (par t p)" "rbt_at t1 (par t p) w (branch d (branch d X p C) w D)"
        "rb_frame (set_tree (plug c ?U)) ?t t1" and "red t1 = red ?t"
      using r ctx T dist(1) by (simp_all add: S)
    then have r1: "red t1 = (red t)(w := False, p := True)" by (simp only: red_black_eq)
    have l1: "lacking (red t1) ((d, p, C) # (d, w, D) # c) X"
      unfolding r1 by (rule lacking_red_sibling [OF l [unfolded S] True])
    then obtain C1 w1 D1 where C: "C = branch d C1 w1 D1" by (rule lacking_sibling)
    have fs: "rb_nodes t1 (rb_sentinel ?t) = rb_nodes ?t (rb_sentinel ?t) \<and> rb_sentinel t1 = rb_sentinel ?t"
      by (rule frame_sentinel [OF r'(3)]) (use ctx T in \<open>simp_all add: S\<close>)
    have x: "x = rb_sentinel t \<or> X \<noteq> Leaf \<and> x \<in> set_tree X" using T cx by (cases X) (auto simp: rbt_at_node)
    then have px1: "par t1 x = p"
    proof
      assume "x = rb_sentinel t"
      then show ?thesis using fs px by simp
    next
      assume "X \<noteq> Leaf \<and> x \<in> set_tree X"
      then show ?thesis using r'(2) T cx by (cases X) (auto simp: rbt_at_node)
    qed
    have cx1: "child d t1 p = x" using r'(2) T cx by (cases X) (auto simp: rbt_at_node fs)
    have w1: "child (opp d) t1 p = w1" using r'(2) by (simp add: C rbt_at_node)
    have sen1: "\<not> red t1 (rb_sentinel t1)" using sen fs T by (auto simp: S rbt_at_node)
    have "hole t1 ((d, p, branch d C1 w1 D1) # (d, w, D) # c) x X"
      using r'(1,2) l1 px1 cx1 sen1 unfolding hole_Cons by (auto simp: C ctx_at_Cons rbt_at_node)
    moreover have "fix1 d x t = (w1, t1)"
      using True by (simp add: fix1_def px w Let_def px1 w1 flip: t1_def)
    moreover have "\<not> red t1 w1" "red t1 p"
      using u(12) True dist(3) dist(6) C fun_cong [OF r1] by auto
    moreover have "inorder (plug ((d, p, branch d C1 w1 D1) # (d, w, D) # c) X) = inorder (plug ((d, p, S) # c) X)"
      unfolding plug_Cons S by (rule inorder_plug_cong) (simp add: C inorder_rot)
    moreover have "rb_frame (set_tree (plug ((d, p, S) # c) X)) t t1"
      by (rule rb_frame_trans [OF rb_frame_trans [OF rb_frame_recolour(1) rb_frame_recolour(2)]])
        (use r'(3) in \<open>simp_all add: S plug_Cons\<close>)
    moreover have "red t1 x = red t x"
      using fun_cong [OF r1, of x] x dist(2,7) T by (auto simp: S rbt_at_node)
    ultimately show ?thesis using that by blast
  qed
qed

text \<open>The two endings of a round: the defect moves up, or a rotation repairs the tree.\<close>

lemma fix2_up:
  assumes h: "hole t ((d, p, branch d C w D) # c) x X" and w: "\<not> red t w" and X: "\<not> red t x"
    and C: "\<not> root_red (red t) C" "\<not> root_red (red t) D"
  shows "fix2 d x w t = (p, gfs_rbt_red w t)" and "hole (gfs_rbt_red w t) c p (branch d X p (branch d C w D))"
proof -
  have l: "lacking (red t) ((d, p, branch d C w D) # c) X" and px: "par t x = p" and cx: "child d t p = x"
    and ctx: "ctx_at t c p (par t p)" and T: "rbt_at t (par t p) p (branch d X p (branch d C w D))"
    and sen: "\<not> red t (rb_sentinel t)"
    using h by (auto simp: hole_Cons)
  have kids: "rbt_at t w (child d t w) C" "rbt_at t w (child (opp d) t w) D" "rbt_at t p x X" "w \<noteq> rb_sentinel t"
    using T cx by (simp_all add: rbt_at_node)
  then show "fix2 d x w t = (p, gfs_rbt_red w t)"
    using C sen by (simp add: fix2_def px rbt_at_root_red)
  have "lacking ((red t)(w := True)) c (branch d X p (branch d C w D))"
    by (rule lacking_recolour [OF l w C]) (use X kids(3) sen rbt_at_root_red in blast)
  then have "lacking (red (gfs_rbt_red w t)) c (branch d X p (branch d C w D))" by (simp only: red_black_eq)
  then show "hole (gfs_rbt_red w t) c p (branch d X p (branch d C w D))"
    using ctx T sen kids(4) by (auto simp: hole_def)
qed

lemma rbt_at_copy_color [simp]: "rbt_at (gfs_rbt_copy_color a b t) q p T = rbt_at t q p T"
  by (induction T arbitrary: q p) auto

lemma ctx_at_copy_color [simp]: "ctx_at (gfs_rbt_copy_color a b t) c p q = ctx_at t c p q"
  by (induction t c p q rule: ctx_at.induct) auto

lemma red_copy_color: "red (gfs_rbt_copy_color a b t) = (red t)(a := red t b)"
  by (auto simp: fun_eq_iff)

lemma rb_frame_copy: "a \<in> A \<Longrightarrow> rb_frame A t (gfs_rbt_copy_color a b t)"
  by (auto simp: rb_frame_def gfs_rbt_copy_color_def upd_node_def)

lemma child_copy [simp]: "child d (gfs_rbt_copy_color a b t) x = child d t x"
  by (cases d) auto

definition repaired :: "rbt \<Rightarrow> addr tree \<Rightarrow> rbt \<Rightarrow> bool" where
  "repaired t T t' \<longleftrightarrow> rb_frame (set_tree T) t t' \<and> (\<exists>T'. rb_tree t' T' \<and> inorder T' = inorder T)"

lemma repairedI:
  assumes "ctx_at t' c p q" and "rbt_at t' q p T'" and "inorder T' = inorder T" and "distinct (inorder (plug c T))"
    and "invc (red t') (plug c T') \<and> invh (red t') (plug c T') \<and> \<not> root_red (red t') (plug c T')"
    and "rb_frame (set_tree (plug c T)) t t'" and "\<not> red t' (rb_sentinel t')"
  shows "repaired t (plug c T) t'"
proof -
  have "inorder (plug c T') = inorder (plug c T)" by (rule inorder_plug_cong [OF assms(3)])
  moreover have "rbt_holds t' (plug c T')" using assms(1,2) rbt_holds_plug by blast
  ultimately show ?thesis using assms(4-7) unfolding repaired_def rb_tree_def by metis
qed

lemma far_repaired:
  assumes h: "hole t ((d, p, branch d C w D) # c) x X" and w: "\<not> red t w" and X: "\<not> red t x"
    and D: "root_red (red t) D"
  defines "t' \<equiv> rot (opp d) p (gfs_rbt_black (child (opp d) t w) (gfs_rbt_black p (gfs_rbt_copy_color w p t)))"
  shows "repaired t (plug ((d, p, branch d C w D) # c) X) t'"
proof -
  have l: "lacking (red t) ((d, p, branch d C w D) # c) X"
    and ctx: "ctx_at t c p (par t p)" and T: "rbt_at t (par t p) p (branch d X p (branch d C w D))"
    and cx: "child d t p = x" and sen: "\<not> red t (rb_sentinel t)"
    using h by (auto simp: hole_Cons)
  obtain V u W where Du: "D = Node V u W" "red t u" using D by (cases D) auto
  have kids: "child (opp d) t w = u" "rbt_at t p x X" "w \<noteq> rb_sentinel t" "p \<noteq> rb_sentinel t" "u \<noteq> rb_sentinel t"
    using T cx by (simp_all add: rbt_at_node Du)
  let ?t = "gfs_rbt_black u (gfs_rbt_black p (gfs_rbt_copy_color w p t))" and ?U = "branch d X p (branch d C w D)"
  note dist = sibling_distinct [OF l]
  note r = rot_opp [of ?t c p "par t p" d X C w D, folded t'_def [unfolded kids(1)]]
  have r': "ctx_at t' c w (par t p)" "rbt_at t' (par t p) w (branch d (branch d X p C) w D)"
      "rb_frame (set_tree (plug c ?U)) ?t t'" and "red t' = red ?t"
    using r ctx T dist(1) by simp_all
  then have r1: "red t' = (red t)(w := red t p, p := False, u := False)"
    by (simp only: red_black_eq red_copy_color)
  have Xb: "\<not> root_red (red t) X" using X kids(2) sen rbt_at_root_red by blast
  have fr: "rb_frame (set_tree (plug c ?U)) t t'"
    by (rule rb_frame_trans [OF rb_frame_trans [OF rb_frame_trans [OF rb_frame_copy rb_frame_recolour(1)] rb_frame_recolour(1)] r'(3)])
      (simp_all add: Du)
  have "\<not> red t' (rb_sentinel t')"
    using fr sen kids fun_cong [OF r1, of "rb_sentinel t"] by (simp add: rb_frame_def)
  then show ?thesis
    unfolding plug_Cons
    by (intro repairedI [OF r'(1,2)] fr dist(1))
      (use lacking_far [OF l Du w Xb] in \<open>simp_all add: inorder_rot r1\<close>)
qed

lemma near_rotated:
  assumes h: "hole t ((d, p, branch d (branch d C1 v C2) w D) # c) x X" and w: "\<not> red t w" "red t v" "\<not> root_red (red t) D"
  defines "t' \<equiv> rot d w (gfs_rbt_red w (gfs_rbt_black v t))"
  shows "hole t' ((d, p, branch d C1 v (branch d C2 w D)) # c) x X" and "\<not> red t' v" and "red t' w" and "red t' x = red t x"
    and "rb_frame (set_tree (plug ((d, p, branch d (branch d C1 v C2) w D) # c) X)) t t'"
proof -
  let ?t = "gfs_rbt_red w (gfs_rbt_black v t)" and ?U = "branch d (branch d C1 v C2) w D"
  have l: "lacking (red t) ((d, p, ?U) # c) X" and px: "par t x = p" and cx: "child d t p = x"
    and ctx: "ctx_at t c p (par t p)" and T: "rbt_at t (par t p) p (branch d X p ?U)" and sen: "\<not> red t (rb_sentinel t)"
    using h by (auto simp: hole_Cons)
  note dist = sibling_distinct [OF l]
  have flip: "branch (opp e) U a V = branch e V a U" for e U a V by (cases e) auto
  have ctx1: "ctx_at ?t ((opp d, p, X) # c) w p" and T1: "rbt_at ?t p w ?U"
    using ctx T by (simp_all add: ctx_at_Cons rbt_at_node)
  have d1: "distinct (inorder (plug ((opp d, p, X) # c) ?U))" using dist(1) by (simp add: plug_Cons flip)
  note r = rot_holds [OF ctx1 T1 d1, folded t'_def]
  have st: "set_tree (plug ((opp d, p, X) # c) ?U) = set_tree (plug ((d, p, ?U) # c) X)" by auto
  have vw: "v \<noteq> w" "v \<notin> set_tree X" "w \<notin> set_tree X" using dist by auto
  have r1: "red t' = (red t)(v := False, w := True)" using r(4) vw(1) by (auto simp: fun_eq_iff)
  have fs: "rb_nodes t' (rb_sentinel ?t) = rb_nodes ?t (rb_sentinel ?t) \<and> rb_sentinel t' = rb_sentinel ?t"
    by (rule frame_sentinel [OF r(3) ctx1 T1])
  have ns: "v \<noteq> rb_sentinel t" "w \<noteq> rb_sentinel t" using T by (simp_all add: rbt_at_node)
  have at: "ctx_at t' c p (par t' p)" "rbt_at t' (par t' p) p (branch d X p (branch d C1 v (branch d C2 w D)))"
    using r(1,2) by (auto simp: ctx_at_Cons rbt_at_node)
  have x: "x = rb_sentinel t \<or> X \<noteq> Leaf \<and> x \<in> set_tree X" using T cx by (cases X) (auto simp: rbt_at_node)
  then have px1: "par t' x = p"
  proof
    assume "x = rb_sentinel t"
    then show ?thesis using fs px by simp
  next
    assume "X \<noteq> Leaf \<and> x \<in> set_tree X"
    then show ?thesis using at(2) T cx by (cases X) (auto simp: rbt_at_node)
  qed
  have cx1: "child d t' p = x" using at(2) T cx by (cases X) (auto simp: rbt_at_node fs)
  have sen1: "\<not> red t' (rb_sentinel t')" using sen fs ns by simp
  have "lacking (red t') ((d, p, branch d C1 v (branch d C2 w D)) # c) X"
    unfolding r1 by (rule lacking_near [OF l w])
  then show "hole t' ((d, p, branch d C1 v (branch d C2 w D)) # c) x X"
    using at px1 cx1 sen1 by (simp add: hole_Cons)
  show "\<not> red t' v" "red t' w" "red t' x = red t x" using fun_cong [OF r1] vw x ns by auto
  show "rb_frame (set_tree (plug ((d, p, ?U) # c) X)) t t'"
    by (rule rb_frame_trans [OF rb_frame_trans [OF rb_frame_recolour(1) rb_frame_recolour(2)]])
      (use r(3) st in \<open>simp_all add: plug_Cons\<close>)
qed

lemma repaired_trans:
  assumes "rb_frame (set_tree T) t t1" and "repaired t1 T1 t'" and "inorder T1 = inorder T"
  shows "repaired t T t'"
proof -
  have "set_tree T1 = set_tree T" using assms(3) by (metis set_inorder)
  then show ?thesis using assms unfolding repaired_def by (metis rb_frame_trans)
qed

lemma fix2_repaired:
  assumes h: "hole t ((d, p, branch d C w D) # c) x X" and w: "\<not> red t w" and X: "\<not> red t x"
    and CD: "root_red (red t) C \<or> root_red (red t) D"
  shows "\<exists>t'. fix2 d x w t = (rb_root t', t') \<and> repaired t (plug ((d, p, branch d C w D) # c) X) t'"
proof -
  have px: "par t x = p" and T: "rbt_at t (par t p) p (branch d X p (branch d C w D))" and sen: "\<not> red t (rb_sentinel t)"
    using h by (auto simp: hole_Cons)
  have kids: "rbt_at t w (child d t w) C" "rbt_at t w (child (opp d) t w) D"
    using T by (simp_all add: rbt_at_node)
  show ?thesis
  proof (cases "root_red (red t) D")
    case True
    then show ?thesis
      using far_repaired [OF h w X True] kids sen by (simp add: fix2_def Let_def px rbt_at_root_red)
  next
    case False
    then obtain C1 v C2 where C: "C = branch d C1 v C2" "red t v" using CD by (cases C; cases d) auto
    let ?t1 = "rot d w (gfs_rbt_red w (gfs_rbt_black v t))"
    note n = near_rotated [OF h [unfolded C] w C(2) False]
    have T1: "par ?t1 x = p" "child (opp d) ?t1 p = v" "child (opp d) ?t1 v = w"
      using n(1) by (auto simp: hole_Cons rbt_at_node)
    have "repaired ?t1 (plug ((d, p, branch d C1 v (branch d C2 w D)) # c) X)
        (rot (opp d) p (gfs_rbt_black w (gfs_rbt_black p (gfs_rbt_copy_color v p ?t1))))"
      using far_repaired [OF n(1,2)] n(3,4) X by (simp add: T1)
    moreover have "inorder (plug ((d, p, branch d C1 v (branch d C2 w D)) # c) X) = inorder (plug ((d, p, branch d C w D) # c) X)"
      unfolding plug_Cons C by (rule inorder_plug_cong) (cases d; simp)
    moreover have "child d t w = v" using kids(1) by (simp add: C rbt_at_node)
    then have "fix2 d x w t = (let t' = rot (opp d) p (gfs_rbt_black w (gfs_rbt_black p (gfs_rbt_copy_color v p ?t1))) in (rb_root t', t'))"
      using False kids sen C(2) by (simp add: fix2_def Let_def px T1 rbt_at_root_red)
    ultimately show ?thesis
      using repaired_trans n(5) unfolding C Let_def by blast
  qed
qed

section \<open>The fixup loop\<close>

lemma black_id: "\<not> red t a \<Longrightarrow> gfs_rbt_black a t = t"
  by (auto simp: gfs_rbt_black_def upd_node_def intro!: rbt.equality ext)

lemma rb_tree_root_black: "rb_tree t T \<Longrightarrow> \<not> red t (rb_root t)"
  by (cases T) (auto simp: rb_tree_def rbt_holds_def)

lemma fixup_stop:
  assumes h: "hole t c x X" and stop: "c = [] \<or> red t x"
  shows "repaired t (plug c X) (gfs_rbt_black x t)"
proof -
  obtain q where ctx: "ctx_at t c x q" and X: "rbt_at t q x X" and l: "lacking (red t) c X" and sen: "\<not> red t (rb_sentinel t)"
    using h by (auto simp: hole_def)
  let ?f = "case X of Leaf \<Rightarrow> red t | Node l a r \<Rightarrow> (red t)(a := False)"
  have "red (gfs_rbt_black x t) = ?f"
    using X sen by (cases X) (auto simp: fun_eq_iff)
  moreover have "root_red (red t) X \<or> c = []" using stop rbt_at_root_red [OF X sen] by blast
  note lacking_done [OF l this]
  moreover have "rb_frame (set_tree (plug c X)) t (gfs_rbt_black x t)"
    using X sen by (cases X) (auto simp: black_id intro: rb_frame_recolour)
  moreover have "distinct (inorder (plug c X))" using l by (simp add: lacking_def)
  ultimately show ?thesis
    using ctx X sen by (intro repairedI [of _ c x q X]) simp_all
qed

lemma fixup_loop_correct:
  assumes "hole t c x X"
  shows "\<exists>t'. fixup_loop x t = Some t' \<and> repaired t (plug c X) t'"
  using assms
proof (induction c arbitrary: t x X)
  case Nil
  then have "x = rb_root t" by (auto simp: hole_def)
  then show ?case using fixup_stop [OF Nil] by (subst fixup_loop.simps) simp
next
  case (Cons f c)
  obtain d p S where f: "f = (d, p, S)" by (cases f)
  note h = Cons.prems [unfolded f]
  show ?case
  proof (cases "red t x")
    case True
    then show ?thesis using fixup_stop [OF Cons.prems] by (subst fixup_loop.simps) simp
  next
    case False
    have T: "rbt_at t (par t p) p (branch d X p S)" and ctx: "ctx_at t c p (par t p)" and cx: "child d t p = x"
      and px: "par t x = p" and l: "lacking (red t) ((d, p, S) # c) X"
      using h by (auto simp: hole_Cons)
    obtain C v D where S: "S = branch d C v D" by (rule lacking_sibling [OF l])
    have dist: "distinct (inorder (plug c (branch d X p S)))" using l by (simp add: lacking_def plug_Cons)
    have x: "x = rb_sentinel t \<or> x \<in> set_tree X" using T cx rbt_at_in by (force simp: rbt_at_node)
    have "child (opp d) t p \<noteq> x" using T x distinct_plugD [OF dist] by (auto simp: S rbt_at_node distinct_node)
    then have side: "(x = lft t (par t x)) = (d = L)" using cx px by (cases d) auto
    have "x \<notin> cset ((d, p, S) # c)" using x ctx_at_sentinel [OF ctx] distinct_plugD [OF dist] T
      rbt_at_sentinel [OF T] by (auto simp: distinct_node)
    moreover have "ctx_at t ((d, p, S) # c) x p" using ctx T cx by (simp add: ctx_at_Cons rbt_at_node)
    ultimately have "x \<noteq> rb_root t" using ctx_at_rootD by blast
    then have go: "fixup_loop x t = (case fix1 d x t of (w, t) \<Rightarrow> case fix2 d x w t of (x, t) \<Rightarrow> fixup_loop x t)"
      using False side by (subst fixup_loop.simps) (cases d; simp add: fixup_halves split: prod.splits)
    obtain C w D c1 t1 where f1: "fix1 d x t = (w, t1)" and h1: "hole t1 ((d, p, branch d C w D) # c1) x X"
      and w: "\<not> red t1 w" and c1: "c1 = c \<or> red t1 p"
      and io: "inorder (plug ((d, p, branch d C w D) # c1) X) = inorder (plug ((d, p, S) # c) X)"
      and fr: "rb_frame (set_tree (plug ((d, p, S) # c) X)) t t1" and rx: "red t1 x = red t x"
      by (rule fix1_correct [OF h])
    have X1: "\<not> red t1 x" using rx False by simp
    show ?thesis
    proof (cases "root_red (red t1) C \<or> root_red (red t1) D")
      case True
      then obtain t' where t': "fix2 d x w t1 = (rb_root t', t')" and r: "repaired t1 (plug ((d, p, branch d C w D) # c1) X) t'"
        using fix2_repaired [OF h1 w X1] by blast
      then have "fixup_loop (rb_root t') t' = Some t'"
        by (subst fixup_loop.simps) (auto simp: repaired_def black_id dest: rb_tree_root_black)
      then show ?thesis using go f1 t' repaired_trans [OF fr r io] by (simp add: f)
    next
      case False
      let ?t2 = "gfs_rbt_red w t1" and ?Y = "branch d X p (branch d C w D)"
      have s2: "fix2 d x w t1 = (p, ?t2)" and h2: "hole ?t2 c1 p ?Y"
        using fix2_up [OF h1 w X1] False by auto
      have "\<exists>t'. fixup_loop p ?t2 = Some t' \<and> repaired ?t2 (plug c1 ?Y) t'"
      proof (cases "c1 = c")
        case True
        then show ?thesis using Cons.IH [of ?t2 p ?Y] h2 by simp
      next
        case False
        then have "red ?t2 p" using c1 by simp
        then show ?thesis using fixup_stop [OF h2] by (subst fixup_loop.simps) simp
      qed
      then obtain t' where t': "fixup_loop p ?t2 = Some t'" "repaired ?t2 (plug c1 ?Y) t'" by blast
      have "set_tree (plug c1 ?Y) = set_tree (plug ((d, p, S) # c) X)" using io unfolding plug_Cons by (metis set_inorder)
      then have "rb_frame (set_tree (plug ((d, p, S) # c) X)) t ?t2"
        using rb_frame_trans [OF fr rb_frame_recolour(2)] by auto
      then show ?thesis using go f1 s2 t' repaired_trans io by (simp add: f plug_Cons)
    qed
  qed
qed

section \<open>Contexts inside trees\<close>

lemma tree_focus: "a \<in> set_tree T \<Longrightarrow> \<exists>c l r. T = plug c (Node l a r)"
proof (induction T)
  case (Node l b r)
  have app: "plug (c @ [f]) U = plug [f] (plug c U)" for c f U
    by (induction c U rule: plug.induct) auto
  consider "a = b" | "a \<in> set_tree l" | "a \<in> set_tree r" using Node.prems by auto
  then show ?case
  proof cases
    case 1
    then show ?thesis by (metis plug.simps(1))
  next
    case 2
    then obtain c l' r' where "l = plug c (Node l' a r')" using Node.IH(1) by blast
    then have "Node l b r = plug (c @ [(L, b, r)]) (Node l' a r')" by (simp add: app)
    then show ?thesis by blast
  next
    case 3
    then obtain c l' r' where "r = plug c (Node l' a r')" using Node.IH(2) by blast
    then have "Node l b r = plug (c @ [(R, b, l)]) (Node l' a r')" by (simp add: app)
    then show ?thesis by blast
  qed
qed simp

lemma plug_append: "plug (c1 @ c2) T = plug c2 (plug c1 T)"
  by (induction c1 T rule: plug.induct) auto

lemma cl_append: "cl (c1 @ c2) = cl c2 @ cl c1"
  by (induction c1 rule: cl.induct) auto

lemma min_focus: "T \<noteq> Leaf \<Longrightarrow> \<exists>c m X. T = plug c (Node Leaf m X) \<and> cl c = [] \<and> hd (inorder T) = m"
proof (induction T)
  case (Node l a r)
  show ?case
  proof (cases "l = Leaf")
    case True
    then have "Node l a r = plug [] (Node Leaf a r)" by simp
    then show ?thesis by fastforce
  next
    case False
    then obtain c m X where "l = plug c (Node Leaf m X)" "cl c = []" "hd (inorder l) = m" using Node.IH(1) by blast
    then have "Node l a r = plug (c @ [(L, a, r)]) (Node Leaf m X)" "cl (c @ [(L, a, r)]) = []" "hd (inorder (Node l a r)) = m"
      using False by (simp_all add: plug_append cl_append hd_append)
    then show ?thesis by blast
  qed
qed simp

lemma rbt_at_plugD:
  "rbt_at t q0 p0 (plug c M) \<Longrightarrow> ctx_at t c2 p0 q0 \<Longrightarrow> \<exists>p q. ctx_at t (c @ c2) p q \<and> rbt_at t q p M"
proof (induction c arbitrary: M)
  case (Cons f c)
  then show ?case by (cases f) (force simp: plug_Cons ctx_at_Cons rbt_at_node)
qed auto

lemma ctx_at_plugD:
  "ctx_at t (c @ c2) p q \<Longrightarrow> rbt_at t q p M \<Longrightarrow> \<exists>p0 q0. ctx_at t c2 p0 q0 \<and> rbt_at t q0 p0 (plug c M)"
proof (induction c arbitrary: M p q)
  case (Cons f c)
  obtain d a S where f: "f = (d, a, S)" by (cases f)
  have "ctx_at t (c @ c2) a (par t a)" "rbt_at t (par t a) a (branch d M a S)"
    using Cons.prems by (auto simp: f ctx_at_Cons rbt_at_node)
  from Cons.IH [OF this] show ?case by (simp add: f plug_Cons)
qed auto

section \<open>Cutting out a node\<close>

definition link :: "addr \<Rightarrow> addr \<Rightarrow> addr \<Rightarrow> rbt \<Rightarrow> rbt" where
  "link q m x t = (if m = lft t q then set_left q x t else set_right q x t)"

lemma link_fields:
  "lft (link q m x t) a = (if a = q \<and> m = lft t q then x else lft t a)"
  "rgt (link q m x t) a = (if a = q \<and> m \<noteq> lft t q then x else rgt t a)"
  "par (link q m x t) a = par t a" "red (link q m x t) a = red t a" "key (link q m x t) a = key t a"
  "rb_root (link q m x t) = rb_root t" "rb_sentinel (link q m x t) = rb_sentinel t"
  by (auto simp: link_def)

lemma unlink_holds:
  assumes ctx: "ctx_at t c m q" and c: "c \<noteq> []" and M: "rbt_at t q m (branch d X m Leaf)" and x: "rbt_at t m x X"
    and dist: "distinct (inorder (plug c (branch d X m Leaf)))"
  defines "t1 \<equiv> set_parent x q (link q m x t)"
  shows "ctx_at t1 c x q" and "rbt_at t1 q x X" and "par t1 x = q" and "q \<noteq> m" and "x \<noteq> m"
    and "a \<noteq> q \<Longrightarrow> a \<noteq> x \<Longrightarrow> rb_nodes t1 a = rb_nodes t a"
proof -
  note dd = distinct_plugD [OF dist]
  have ms: "m \<noteq> rb_sentinel t" using M by (simp add: rbt_at_node)
  have q: "q \<in> cset c" using ctx_at_parent [OF ctx c] by blast
  then show "q \<noteq> m" using dd by auto
  have xin: "x = rb_sentinel t \<or> x \<in> set_tree X" using x rbt_at_in by blast
  then show "x \<noteq> m" using ms dd by (auto simp: distinct_node)
  have side: "fst (hd c) = L \<longleftrightarrow> lft t q = m" "fst (hd c) = R \<longleftrightarrow> lft t q \<noteq> m"
    using ctx_at_side [OF ctx c] dd ms by (cases "fst (hd c)"; auto)+
  have xc: "x \<notin> cset c" using xin ctx_at_sentinel [OF ctx] dd by auto
  show "ctx_at t1 c x q"
    by (rule ctx_at_relink [OF ctx dist]) (use c side xc in \<open>auto simp: t1_def link_fields\<close>)
  show "par t1 x = q" by (simp add: t1_def)
  have "q \<notin> set_tree X" using q dd by auto
  then show "rbt_at t1 q x X"
    by (intro rbt_at_reparent [OF x]) (use dd in \<open>auto simp: t1_def link_fields distinct_node\<close>)
  show "rb_nodes t1 a = rb_nodes t a" if "a \<noteq> q" "a \<noteq> x"
    using that by (intro rbnode.equality) (simp_all add: t1_def link_fields)
qed

text \<open>\<open>replace_node n m\<close> puts \<open>m\<close> at the place of \<open>n\<close>: the part of \<open>delete_move\<close> after the parent of \<open>temp\<close> is set.\<close>

definition replace_node :: "addr \<Rightarrow> addr \<Rightarrow> rbt \<Rightarrow> rbt" where
  "replace_node n m t =
     (let t = set_left m (lft t n) t;
          t = set_right m (rgt t n) t;
          t = set_parent m (par t n) t;
          t = gfs_rbt_copy_color m n t;
          t = (if n = rb_root t then set_root m t
               else if n = lft t (par t n) then set_left (par t n) m t
               else set_right (par t n) m t);
          t = (if lft t m \<noteq> rb_sentinel t then set_parent (lft t m) m t else t);
          t = (if rgt t m \<noteq> rb_sentinel t then set_parent (rgt t m) m t else t)
      in t)"

lemma delete_move_replace:
  "delete_move n m x t = replace_node n m (set_parent x (if par t m = n then m else par t m) t)"
  by (cases "par t m = n") (simp_all only: delete_move_def replace_node_def Let_def if_True if_False simp_thms)

lemma replace_node_fields:
  assumes "m \<noteq> n" and "n \<noteq> rb_root t \<longrightarrow> par t n \<noteq> n \<and> par t n \<noteq> m"
    and "lft t n \<noteq> m" and "rgt t n \<noteq> m"
  shows "lft (replace_node n m t) a =
      (if a = m then lft t n else if a = par t n \<and> n \<noteq> rb_root t \<and> lft t a = n then m else lft t a)"
    and "rgt (replace_node n m t) a =
      (if a = m then rgt t n else if a = par t n \<and> n \<noteq> rb_root t \<and> lft t a \<noteq> n then m else rgt t a)"
    and "par (replace_node n m t) a =
      (if a \<noteq> rb_sentinel t \<and> (a = lft t n \<or> a = rgt t n) then m else if a = m then par t n else par t a)"
    and "red (replace_node n m t) a = (if a = m then red t n else red t a)"
    and "key (replace_node n m t) a = key t a"
    and "rb_root (replace_node n m t) = (if n = rb_root t then m else rb_root t)"
    and "rb_sentinel (replace_node n m t) = rb_sentinel t"
proof -
  define s1 where "s1 = set_left m (lft t n) t"
  define s2 where "s2 = set_right m (rgt s1 n) s1"
  define s3 where "s3 = set_parent m (par s2 n) s2"
  define t1 where "t1 = gfs_rbt_copy_color m n s3"
  define t2 where "t2 = (if n = rb_root t1 then set_root m t1
    else if n = lft t1 (par t1 n) then set_left (par t1 n) m t1 else set_right (par t1 n) m t1)"
  define t3 where "t3 = (if lft t2 m \<noteq> rb_sentinel t2 then set_parent (lft t2 m) m t2 else t2)"
  have eq: "replace_node n m t = (if rgt t3 m \<noteq> rb_sentinel t3 then set_parent (rgt t3 m) m t3 else t3)"
    by (simp only: replace_node_def Let_def s1_def s2_def s3_def t1_def t2_def t3_def)
  have f1: "\<And>a. lft t1 a = (if a = m then lft t n else lft t a)" "\<And>a. rgt t1 a = (if a = m then rgt t n else rgt t a)"
    "\<And>a. par t1 a = (if a = m then par t n else par t a)" "\<And>a. red t1 a = (if a = m then red t n else red t a)"
    "\<And>a. key t1 a = key t a" "rb_root t1 = rb_root t" "rb_sentinel t1 = rb_sentinel t"
    using assms(1) by (auto simp: t1_def s3_def s2_def s1_def)
  have f2: "\<And>a. lft t2 a = (if a = m then lft t n else if a = par t n \<and> n \<noteq> rb_root t \<and> lft t a = n then m else lft t a)"
    "\<And>a. rgt t2 a = (if a = m then rgt t n else if a = par t n \<and> n \<noteq> rb_root t \<and> lft t a \<noteq> n then m else rgt t a)"
    "\<And>a. par t2 a = par t1 a" "\<And>a. red t2 a = red t1 a" "\<And>a. key t2 a = key t a"
    "rb_root t2 = (if n = rb_root t then m else rb_root t)" "rb_sentinel t2 = rb_sentinel t"
    using assms(1,2) by (auto simp: t2_def f1)
  have f3: "\<And>a. lft t3 a = lft t2 a" "\<And>a. rgt t3 a = rgt t2 a"
    "\<And>a. par t3 a = (if a \<noteq> rb_sentinel t \<and> a = lft t n then m else par t2 a)" "\<And>a. red t3 a = red t2 a" "\<And>a. key t3 a = key t2 a"
    "rb_root t3 = rb_root t2" "rb_sentinel t3 = rb_sentinel t2"
    by (auto simp: t3_def f2)
  show "lft (replace_node n m t) a =
      (if a = m then lft t n else if a = par t n \<and> n \<noteq> rb_root t \<and> lft t a = n then m else lft t a)"
    and "rgt (replace_node n m t) a =
      (if a = m then rgt t n else if a = par t n \<and> n \<noteq> rb_root t \<and> lft t a \<noteq> n then m else rgt t a)"
    and "par (replace_node n m t) a =
      (if a \<noteq> rb_sentinel t \<and> (a = lft t n \<or> a = rgt t n) then m else if a = m then par t n else par t a)"
    and "red (replace_node n m t) a = (if a = m then red t n else red t a)"
    and "key (replace_node n m t) a = key t a"
    and "rb_root (replace_node n m t) = (if n = rb_root t then m else rb_root t)"
    and "rb_sentinel (replace_node n m t) = rb_sentinel t"
    using assms(3,4) by (auto simp: eq f3 f2 f1)
qed

lemma replace_node_holds:
  assumes ctx: "ctx_at t c n q" and T: "rbt_at t q n (Node l n r)" and dist: "distinct (inorder (plug c (Node l n r)))"
    and m: "m \<notin> set_tree (plug c (Node l n r))" "m \<noteq> rb_sentinel t"
  defines "t' \<equiv> replace_node n m t"
  shows "ctx_at t' c m q" and "rbt_at t' q m (Node l m r)" and "rb_sentinel t' = rb_sentinel t"
    and "red t' = (red t)(m := red t n)" and "\<And>a. key t' a = key t a"
    and "\<And>a. a \<noteq> rb_sentinel t \<Longrightarrow> a \<noteq> m \<Longrightarrow> a \<notin> set_tree (plug c (Node l n r)) \<Longrightarrow> rb_nodes t' a = rb_nodes t a"
    and "par t' (rb_sentinel t) = par t (rb_sentinel t)"
proof -
  have dj: "cset c \<inter> set_tree (Node l n r) = {}" and dT: "distinct (inorder (Node l n r))" using distinct_plugD [OF dist] by auto
  have ne: "n \<notin> set_tree l" "n \<notin> set_tree r" "set_tree l \<inter> set_tree r = {}" using dT by (auto simp flip: set_inorder)
  have pn: "par t n = q" and ns: "n \<noteq> rb_sentinel t" and l: "rbt_at t n (lft t n) l" and r: "rbt_at t n (rgt t n) r"
    using T by auto
  have rootn: "n = rb_root t \<longleftrightarrow> c = []" using ctx_at_rootD [OF ctx] dj by auto
  have qc: "c \<noteq> [] \<Longrightarrow> q \<in> cset c" using ctx_at_parent [OF ctx] by blast
  have lr: "lft t n = rb_sentinel t \<or> lft t n \<in> set_tree l" "rgt t n = rb_sentinel t \<or> rgt t n \<in> set_tree r"
    using rbt_at_in [OF l] rbt_at_in [OF r] by blast+
  have mn: "m \<noteq> n" using m by auto
  have "n \<noteq> rb_root t \<longrightarrow> par t n \<noteq> n \<and> par t n \<noteq> m" using rootn qc dj pn m by auto
  moreover have "lft t n \<noteq> m" "rgt t n \<noteq> m" using lr m by auto
  ultimately have f: "\<And>a. lft t' a = (if a = m then lft t n else if a = q \<and> c \<noteq> [] \<and> lft t a = n then m else lft t a)"
    "\<And>a. rgt t' a = (if a = m then rgt t n else if a = q \<and> c \<noteq> [] \<and> lft t a \<noteq> n then m else rgt t a)"
    "\<And>a. par t' a = (if a \<noteq> rb_sentinel t \<and> (a = lft t n \<or> a = rgt t n) then m else if a = m then q else par t a)"
    "\<And>a. red t' a = (if a = m then red t n else red t a)" "\<And>a. key t' a = key t a"
    "rb_root t' = (if c = [] then m else rb_root t)" "rb_sentinel t' = rb_sentinel t"
    using replace_node_fields [OF mn, of t] unfolding t'_def rootn pn by simp_all
  show "rb_sentinel t' = rb_sentinel t" "\<And>a. key t' a = key t a" by (rule f)+
  show "red t' = (red t)(m := red t n)" by (auto simp: f(4) fun_eq_iff)
  show "par t' (rb_sentinel t) = par t (rb_sentinel t)" using m(2) by (simp add: f(3))
  show "ctx_at t' c m q"
  proof (rule ctx_at_relink [OF ctx dist])
    fix a assume a: "a \<in> cset c"
    then have "c \<noteq> []" "a \<noteq> m" "a \<noteq> lft t n \<or> a = rb_sentinel t" "a \<noteq> rgt t n \<or> a = rb_sentinel t" using dj m lr by auto
    moreover have "fst (hd c) = L \<longleftrightarrow> lft t q = n" "fst (hd c) = R \<longleftrightarrow> rgt t q = n"
      using ctx_at_side [OF ctx] calculation(1) dj ns by auto
    moreover from this have "lft t q = n \<longleftrightarrow> rgt t q \<noteq> n" by (cases "fst (hd c)") auto
    ultimately show "par t' a = par t a"
      and "lft t' a = (if a = q \<and> fst (hd c) = L then m else lft t a)"
      and "rgt t' a = (if a = q \<and> fst (hd c) = R then m else rgt t a)"
      by (simp_all add: f) blast+
  qed (simp_all add: f)
  have kid: "rbt_at t' m p S" if S: "rbt_at t n p S" and p: "p = lft t n \<or> p = rgt t n" and dS: "distinct (inorder S)"
    and sS: "set_tree S \<subseteq> set_tree (Node l n r)" and other: "\<And>a. a \<in> set_tree S \<Longrightarrow> a = lft t n \<or> a = rgt t n \<Longrightarrow> a = p" for p S
  proof (rule rbt_at_reparent [OF S dS])
    show "par t' p = m" if "p \<noteq> rb_sentinel t" using that p by (auto simp: f)
    fix a assume a: "a \<in> set_tree S"
    then have am: "a \<noteq> m" "c = [] \<or> a \<noteq> q" using m sS dj qc by auto
    then show "lft t' a = lft t a \<and> rgt t' a = rgt t a" by (auto simp: f)
    show "par t' a = par t a" if "a \<noteq> p" using other [OF a] that am(1) by (auto simp: f)
  qed (simp add: f)
  have sen: "rb_sentinel t \<notin> set_tree l" "rb_sentinel t \<notin> set_tree r" using rbt_at_sentinel [OF l] rbt_at_sentinel [OF r] by auto
  have "rbt_at t' m (lft t n) l" "rbt_at t' m (rgt t n) r"
    by (rule kid [OF l] kid [OF r]; use lr sen ne dT in auto)+
  then show "rbt_at t' q m (Node l m r)" using m(2) lr m(1) by (auto simp: f)
  show "rb_nodes t' a = rb_nodes t a" if "a \<noteq> rb_sentinel t" "a \<noteq> m" "a \<notin> set_tree (plug c (Node l n r))" for a
    using that lr qc by (intro rbnode.equality) (auto simp: f)
qed

section \<open>Colours after the cut\<close>

definition rest_ok :: "(addr \<Rightarrow> bool) \<Rightarrow> bool \<Rightarrow> ctx \<Rightarrow> addr tree \<Rightarrow> bool" where
  "rest_ok f was_red c X \<longleftrightarrow>
     (if was_red then invc f (plug c X) \<and> invh f (plug c X) \<and> \<not> root_red f (plug c X) \<and> distinct (inorder (plug c X))
      else lacking f c X)"

lemma cut_colours:
  assumes T: "invc f (plug c (branch d X m Leaf))" "invh f (plug c (branch d X m Leaf))" "\<not> root_red f (plug c (branch d X m Leaf))"
    and dist: "distinct (inorder (plug c (branch d X m Leaf)))" and c: "c \<noteq> []"
  shows "rest_ok f (f m) c X"
proof -
  have i: "invc f X" "invh f X" "bh f X = 0" "f m \<longrightarrow> \<not> root_red f X" "cinvc f c" "\<not> f (fst (snd (last c)))"
      "cinvh f c (bh f X + (if f m then 0 else 1))"
    using T c by (auto simp: invc_plug invh_plug root_red_plug)
  have "distinct (inorder (plug c X))"
    using dist by (cases d) (auto simp: inorder_plug)
  moreover have "invc2 f X" using i(1) by (cases X) auto
  ultimately show ?thesis using i c
    by (cases "f m") (auto simp: rest_ok_def lacking_def invc_plug invh_plug root_red_plug)
qed

lemma ctx_rename:
  assumes m: "m \<notin> set_tree S" "m \<notin> cset c" "n \<noteq> m" and g: "g m = f n" "\<And>a. a \<noteq> m \<Longrightarrow> g a = f a"
  shows "m \<notin> cset c1 \<Longrightarrow> up_red g (c1 @ (d, m, S) # c) = up_red f (c1 @ (d, n, S) # c)"
    and "m \<notin> cset c1 \<Longrightarrow> cinvc g (c1 @ (d, m, S) # c) = cinvc f (c1 @ (d, n, S) # c)"
    and "m \<notin> cset c1 \<Longrightarrow> cinvh g (c1 @ (d, m, S) # c) k = cinvh f (c1 @ (d, n, S) # c) k"
proof -
  have tr: "root_red g U = root_red f U" "invc g U = invc f U" "bh g U = bh f U" "invh g U = invh f U" if "m \<notin> set_tree U" for U
    by (rule colour_cong; use that g(2) in metis)+
  have gc: "g a = f a" if "a \<in> cset c" for a using that m(2) g(2) by metis
  have cc: "cinvc g c = cinvc f c" "\<And>k. cinvh g c k = cinvh f c k" "up_red g c = up_red f c"
    using gc cinvc_cong [of c g f] cinvh_cong [of c g f] by (blast, blast) (cases c rule: cset.cases; simp add: gc)
  show up: "up_red g (c1 @ (d, m, S) # c) = up_red f (c1 @ (d, n, S) # c)" if "m \<notin> cset c1" for c1
    using that g by (cases c1 rule: cset.cases) auto
  show "cinvc g (c1 @ (d, m, S) # c) = cinvc f (c1 @ (d, n, S) # c)" if "m \<notin> cset c1"
    using that
  proof (induction c1)
    case (Cons x c1)
    then show ?case using up [of c1] by (cases x) (auto simp: tr g(2))
  qed (simp add: tr cc g m)
  show "cinvh g (c1 @ (d, m, S) # c) k = cinvh f (c1 @ (d, n, S) # c) k" if "m \<notin> cset c1"
    using that
  proof (induction c1 arbitrary: k)
    case (Cons x c1)
    then show ?case by (cases x) (auto simp: tr g(2))
  qed (simp add: tr cc g m)
qed

lemma rest_rename:
  assumes r: "rest_ok f b (c1 @ (d, n, S) # c) X" and m: "m \<notin> set_tree (plug (c1 @ (d, n, S) # c) X)"
  shows "rest_ok (f(m := f n)) b (c1 @ (d, m, S) # c) X"
proof -
  let ?c = "c1 @ (d, n, S) # c" and ?c' = "c1 @ (d, m, S) # c" and ?f = "f(m := f n)"
  have ms: "m \<notin> cset c1" "m \<notin> set_tree S" "m \<notin> cset c" "n \<noteq> m" "m \<notin> set_tree X"
    using m by (auto simp: plug_append plug_Cons)
  note ren = ctx_rename [OF ms(2-4), of ?f f c1 d, OF _ _ ms(1)]
  have last: "?f (fst (snd (last ?c'))) = f (fst (snd (last ?c)))"
    using ms last_cset [of c] by (cases "c = []") auto
  have "distinct (inorder (plug ?c X))" using r by (auto simp: rest_ok_def lacking_def split: if_splits)
  moreover have "inorder (plug ?c X) = (case d of L \<Rightarrow> (cl c @ cl c1 @ inorder X @ cr c1) @ n # inorder S @ cr c
      | R \<Rightarrow> (cl c @ inorder S) @ n # cl c1 @ inorder X @ cr c1 @ cr c)"
    "inorder (plug ?c' X) = (case d of L \<Rightarrow> (cl c @ cl c1 @ inorder X @ cr c1) @ m # inorder S @ cr c
      | R \<Rightarrow> (cl c @ inorder S) @ m # cl c1 @ inorder X @ cr c1 @ cr c)"
    by (cases d; simp add: plug_append inorder_plug)+
  moreover have "m \<notin> set (inorder (plug ?c X))" using m by simp
  ultimately have "distinct (inorder (plug ?c' X))" by (cases d) auto
  then show ?thesis
    using r ren ms(4,5) last unfolding rest_ok_def lacking_def
    by (cases b) (simp_all add: invc_plug invh_plug root_red_plug)
qed

section \<open>Deletion\<close>

lemma clear_node_fields:
  "lft (clear_node n t) a = (if a = n then NULL else lft t a)" "rgt (clear_node n t) a = (if a = n then NULL else rgt t a)"
  "par (clear_node n t) a = (if a = n then NULL else par t a)" "key (clear_node n t) a = (if a = n then 0 else key t a)"
  "red (clear_node n t) a = red t a" "rb_root (clear_node n t) = rb_root t" "rb_sentinel (clear_node n t) = rb_sentinel t"
  by (auto simp: clear_node_def)

lemma clear_node_holds:
  assumes "ctx_at t c x q" and "rbt_at t q x X" and "n \<notin> set_tree (plug c X)" and "n \<noteq> rb_sentinel t"
  shows "ctx_at (clear_node n t) c x q" and "rbt_at (clear_node n t) q x X"
proof -
  have n: "n \<notin> cset c" "n \<notin> set_tree X" using assms(3) by auto
  show "ctx_at (clear_node n t) c x q"
    by (rule ctx_at_frame [OF assms(1)]) (use n in \<open>auto simp: clear_node_fields\<close>)
  show "rbt_at (clear_node n t) q x X"
    by (rule rbt_at_frame [OF assms(2)]) (use n in \<open>auto simp: clear_node_fields\<close>)
qed

lemma clear_node_tree:
  assumes "rb_tree t T" and "n \<notin> set_tree T" and "n \<noteq> rb_sentinel t"
  shows "rb_tree (clear_node n t) T"
proof -
  have "red (clear_node n t) = red t" by (auto simp: clear_node_fields)
  moreover obtain q where "rbt_at t q (rb_root t) T" using assms(1) by (auto simp: rb_tree_def rbt_holds_def)
  then have "rbt_at (clear_node n t) q (rb_root t) T"
    by (rule rbt_at_frame) (use assms(2) in \<open>auto simp: clear_node_fields\<close>)
  ultimately show ?thesis using assms by (auto simp: rb_tree_def rbt_holds_def clear_node_fields)
qed

text \<open>What a deletion promises: the node is gone and cleared, the others keep their order and keys.\<close>

definition cut_node :: "addr \<Rightarrow> rbt \<Rightarrow> addr tree \<Rightarrow> rbt \<Rightarrow> bool" where
  "cut_node n t T t' \<longleftrightarrow> (\<exists>T'. rb_tree t' T' \<and> inorder T' = filter (\<lambda>a. a \<noteq> n) (inorder T))
     \<and> rb_sentinel t' = rb_sentinel t \<and> (\<forall>a. a \<noteq> n \<longrightarrow> key t' a = key t a)
     \<and> lft t' n = NULL \<and> rgt t' n = NULL \<and> par t' n = NULL \<and> key t' n = 0
     \<and> (\<forall>a. a \<notin> set_tree T \<and> a \<noteq> rb_sentinel t \<longrightarrow> rb_nodes t' a = rb_nodes t a)"

text \<open>From the store after the cut to the end of the function.\<close>

lemma cut_finish:
  assumes ctx: "ctx_at t1 c x q" and X: "rbt_at t1 q x X" and px: "par t1 x = q" and c: "c \<noteq> []"
    and r: "rest_ok (red t1) b c X" and sen: "\<not> red t1 (rb_sentinel t1)" and s: "rb_sentinel t1 = rb_sentinel t"
    and n: "n \<in> set_tree T" "n \<noteq> rb_sentinel t" and io: "inorder (plug c X) = filter (\<lambda>a. a \<noteq> n) (inorder T)"
    and k: "\<forall>a. key t1 a = key t a"
    and fr: "\<And>a. a \<notin> set_tree T \<Longrightarrow> a \<noteq> rb_sentinel t \<Longrightarrow> rb_nodes t1 a = rb_nodes t a"
  shows "\<exists>t'. (let t1 = clear_node n t1 in if b then Some t1 else fixup_loop x t1) = Some t' \<and> cut_node n t T t'"
proof -
  let ?t = "clear_node n t1"
  have st: "set_tree (plug c X) = set_tree T - {n}" using io by (metis set_inorder set_minus_filter_out)
  have nin: "n \<notin> set_tree (plug c X)" using st by auto
  note h = clear_node_holds [OF ctx X nin n(2) [folded s]]
  have red: "red ?t = red t1" by (auto simp: clear_node_fields)
  have nx: "n \<noteq> x" using X nin n(2) s rbt_at_in [OF X] by auto
  have "\<exists>t'. (if b then Some ?t else fixup_loop x ?t) = Some t' \<and> repaired ?t (plug c X) t'"
  proof (cases b)
    case True
    then show ?thesis using r h rbt_holds_plug [of ?t c X] sen
      by (auto simp: repaired_def rb_tree_def rest_ok_def red clear_node_fields)
  next
    case False
    then have "hole ?t c x X" using h r px nx sen by (auto simp: hole_def rest_ok_def red clear_node_fields)
    then show ?thesis using fixup_loop_correct False by simp
  qed
  then obtain t' T' where t': "(if b then Some ?t else fixup_loop x ?t) = Some t'" and f: "rb_frame (set_tree T - {n}) ?t t'"
    and T': "rb_tree t' T'" "inorder T' = inorder (plug c X)"
    unfolding repaired_def st by blast
  have nodes: "rb_nodes t' a = rb_nodes ?t a" if "a = n \<or> a \<notin> set_tree T" for a using f that by (auto simp: rb_frame_def)
  have "rb_nodes ?t a = rb_nodes t1 a" if "a \<noteq> n" for a
    using that by (intro rbnode.equality) (simp_all add: clear_node_fields)
  then have "rb_nodes t' a = rb_nodes t a" if "a \<notin> set_tree T" "a \<noteq> rb_sentinel t" for a
    using nodes fr that n(1) by metis
  moreover have "key t' a = key t a" if "a \<noteq> n" for a using f k that by (simp add: rb_frame_def clear_node_fields)
  moreover have "lft t' n = NULL \<and> rgt t' n = NULL \<and> par t' n = NULL \<and> key t' n = 0"
    using nodes [of n] clear_node_fields(1-4) [of n t1 n] by simp
  moreover have "rb_sentinel t' = rb_sentinel t" using f s by (simp add: rb_frame_def clear_node_fields)
  ultimately have "cut_node n t T t'" using T' io unfolding cut_node_def by auto
  then show ?thesis using t' by (auto simp: Let_def)
qed

lemma delete_unfold:
  assumes "delete_subst n t = Some (x, m)" and "m \<noteq> rb_root t"
  shows "gfs_rbtree_delete n t =
    (let u = link (par t m) m x t;
         t1 = (if m = n then set_parent x (par u m) u else delete_move n m x u);
         t1 = clear_node n t1
     in if red t m then Some t1 else fixup_loop x t1)"
  using assms by (simp add: gfs_rbtree_delete_def link_def Let_def)

lemma delete_leafy:
  assumes t: "rb_tree t T" and T: "T = plug c (branch d X n Leaf)" and sub: "delete_subst n t = Some (x, n)"
    and ctx: "ctx_at t c n q" and N: "rbt_at t q n (branch d X n Leaf)" and X: "rbt_at t n x X"
  shows "\<exists>t'. gfs_rbtree_delete n t = Some t' \<and> cut_node n t T t'"
proof -
  have inv: "invc (red t) T" "invh (red t) T" "\<not> root_red (red t) T" "distinct (inorder T)" "\<not> red t (rb_sentinel t)"
    using t by (auto simp: rb_tree_def)
  have dd: "cset c \<inter> set_tree (branch d X n Leaf) = {}" "distinct (inorder X)" "n \<notin> set_tree X"
    using distinct_plugD [of c "branch d X n Leaf"] inv(4) T by (auto simp: distinct_node)
  have ns: "n \<noteq> rb_sentinel t" and pn: "par t n = q" using N by (simp_all add: rbt_at_node)
  have rootn: "n = rb_root t \<longleftrightarrow> c = []" using ctx_at_rootD [OF ctx] dd by auto
  have "n \<notin> set (cl c) \<union> set (cr c)"
    using dd(1) inorder_plug [of c Leaf] set_inorder [of "plug c Leaf"] by auto
  moreover have "filter (\<lambda>a. a \<noteq> n) ys = ys" if "n \<notin> set ys" for ys using that by (auto simp: filter_id_conv)
  ultimately have io: "inorder (plug c X) = filter (\<lambda>a. a \<noteq> n) (inorder T)"
    using dd(3) unfolding T inorder_plug by (cases d) auto
  show ?thesis
  proof (cases "c = []")
    case True
    let ?t = "gfs_rbt_black x (set_root x t)"
    have del: "gfs_rbtree_delete n t = Some (clear_node n ?t)" using True rootn sub by (simp add: gfs_rbtree_delete_def)
    have "rbt_at (set_root x t) n x X" by (rule rbt_at_frame [OF X]) (auto simp: set_root_def)
    then have "rbt_holds (set_root x t) X" by (auto simp: rbt_holds_def)
    moreover have "invc (red (set_root x t)) X" "invh (red (set_root x t)) X" using inv(1,2) True by (simp_all add: T)
    ultimately have "rb_tree ?t X"
      using black_root [of "set_root x t" X] dd(2) inv(5) X by (cases "X = Leaf") (auto simp: rb_tree_def black_id)
    then have "rb_tree (clear_node n ?t) X" using clear_node_tree dd(3) ns by simp
    moreover have "rb_nodes (clear_node n ?t) a = rb_nodes t a" if "a \<notin> set_tree T" "a \<noteq> rb_sentinel t" for a
    proof -
      have "a \<noteq> n" "a \<noteq> x" using that rbt_at_in [OF X] by (auto simp: T)
      then show ?thesis by (intro rbnode.equality) (simp_all add: clear_node_fields)
    qed
    ultimately have "cut_node n t T (clear_node n ?t)"
      using io True by (auto simp: cut_node_def clear_node_fields)
    then show ?thesis using del by blast
  next
    case False
    let ?t1 = "set_parent x q (link q n x t)"
    note u = unlink_holds [OF ctx False N X inv(4) [unfolded T]]
    have red1: "red ?t1 = red t" by (auto simp: link_fields)
    have r: "rest_ok (red ?t1) (red t n) c X"
      unfolding red1 by (rule cut_colours) (use inv False in \<open>simp_all add: T\<close>)
    have "x = rb_sentinel t \<or> x \<in> set_tree T" "q \<in> set_tree T"
      using rbt_at_in [OF X] ctx_at_parent [OF ctx False] by (auto simp: T)
    then have fr: "rb_nodes ?t1 a = rb_nodes t a" if "a \<notin> set_tree T" "a \<noteq> rb_sentinel t" for a
      using u(6) [of a] that by auto
    have "gfs_rbtree_delete n t = (let t1 = clear_node n ?t1 in if red t n then Some t1 else fixup_loop x t1)"
      using False rootn delete_unfold [OF sub] by (simp only: pn link_fields(3) if_True simp_thms Let_def)
    then show ?thesis
      using cut_finish [OF u(1-3) False r, of t n T] inv(5) ns io fr by (simp add: link_fields T)
  qed
qed

lemma set_parent_id: "par t a = v \<Longrightarrow> set_parent a v t = t"
  by (auto simp: set_parent_def upd_node_def intro!: rbt.equality ext)

text \<open>
  The successor \<open>m\<close> is cut out below \<open>q\<close> and put in the place of \<open>n\<close>. The code sets the parent of \<open>x\<close>
  before the replacement, to \<open>m\<close> when \<open>q\<close> is \<open>n\<close> itself; setting it afterwards gives the same store.
\<close>

lemma move_reparent:
  assumes "m \<noteq> n" and "x \<noteq> n" and "x \<noteq> m" and "par u m = q" and "q = n \<Longrightarrow> rgt u n = x"
    and "q \<noteq> n \<Longrightarrow> x = rb_sentinel u \<or> x \<noteq> lft u n \<and> x \<noteq> rgt u n"
    and "n \<noteq> rb_root u \<longrightarrow> par u n \<noteq> n \<and> par u n \<noteq> m" and "lft u n \<noteq> m" and "rgt u n \<noteq> m"
  defines "q2 \<equiv> if q = n then m else q"
  shows "delete_move n m x u = set_parent x q2 (replace_node n m (set_parent x q u))"
proof -
  let ?a = "set_parent x q2 u" and ?b = "set_parent x q u"
  have del: "delete_move n m x u = replace_node n m ?a" by (simp only: delete_move_replace q2_def assms(4))
  have ab: "n \<noteq> rb_root ?a \<longrightarrow> par ?a n \<noteq> n \<and> par ?a n \<noteq> m" "lft ?a n \<noteq> m" "rgt ?a n \<noteq> m"
    "n \<noteq> rb_root ?b \<longrightarrow> par ?b n \<noteq> n \<and> par ?b n \<noteq> m" "lft ?b n \<noteq> m" "rgt ?b n \<noteq> m"
    using assms(2,7-9) by auto
  note fa = replace_node_fields [OF assms(1) ab(1-3)] and fb = replace_node_fields [OF assms(1) ab(4-6)]
  show ?thesis
  proof (rule rbt.equality)
    show "rb_nodes (delete_move n m x u) = rb_nodes (set_parent x q2 (replace_node n m ?b))"
    proof (rule ext, rule rbnode.equality)
      fix a
      have "par (replace_node n m ?a) x = q2" using assms(3,5,6) unfolding fa(3) by (auto simp: q2_def)
      moreover have "par (replace_node n m ?a) a = par (replace_node n m ?b) a" if "a \<noteq> x" using that assms(2) by (simp add: fa fb)
      ultimately show "par (delete_move n m x u) a = par (set_parent x q2 (replace_node n m ?b)) a" by (simp add: del)
    qed (use assms(2) in \<open>auto simp: del fa fb\<close>)
  qed (simp_all add: del fa fb)
qed

lemma plug_root: "c \<noteq> [] \<Longrightarrow> \<exists>l r. plug c X = Node l (fst (snd (last c))) r"
proof (induction c arbitrary: X)
  case (Cons f c)
  then show ?case by (cases f; cases "fst f"; cases "c = []") auto
qed simp

text \<open>The store after the successor has taken the place of the node, from the store without the successor.\<close>

lemma inner_moved:
  assumes ctx: "ctx_at t1 (cm @ (R, n, l) # c) x q" and X: "rbt_at t1 q x X" and px: "par t1 x = q" and l: "l \<noteq> Leaf"
    and d: "distinct (inorder (plug (cm @ (R, n, l) # c) X))" and m: "m \<notin> set_tree (plug (cm @ (R, n, l) # c) X)" "m \<noteq> rb_sentinel t1"
    and u: "t1 = set_parent x q u" "par u m = q"
  defines "q2 \<equiv> if q = n then m else q" and "t3 \<equiv> delete_move n m x u"
  shows "ctx_at t3 (cm @ (R, m, l) # c) x q2" and "rbt_at t3 q2 x X" and "par t3 x = q2"
    and "red t3 = (red t1)(m := red t1 n)" and "rb_sentinel t3 = rb_sentinel t1" and "\<And>a. key t3 a = key t1 a"
    and "\<And>a. a \<noteq> rb_sentinel t1 \<Longrightarrow> a \<noteq> m \<Longrightarrow> a \<notin> set_tree (plug (cm @ (R, n, l) # c) X) \<Longrightarrow> rb_nodes t3 a = rb_nodes t1 a"
proof -
  let ?c = "cm @ (R, n, l) # c" and ?c' = "cm @ (R, m, l) # c" and ?N = "Node l n (plug cm X)"
  have pl: "plug ?c X = plug c ?N" by (simp add: plug_append)
  have d': "distinct (inorder (plug c ?N))" and m': "m \<notin> set_tree (plug c ?N)" using d m pl by simp_all
  have dd: "cset c \<inter> set_tree ?N = {}" "n \<notin> set_tree l" "n \<notin> set_tree (plug cm X)" "set_tree l \<inter> set_tree (plug cm X) = {}"
      "distinct (inorder (plug cm X))"
    using distinct_plugD [OF d'] by (auto simp flip: set_inorder)
  have dX: "cset cm \<inter> set_tree X = {}" using distinct_plugD [OF dd(5)] by blast
  obtain p0 q0 where "ctx_at t1 ((R, n, l) # c) p0 q0" "rbt_at t1 q0 p0 (plug cm X)" using ctx_at_plugD [OF ctx X] by blast
  then have c1: "ctx_at t1 c n (par t1 n)" and N1: "rbt_at t1 (par t1 n) n ?N" by auto
  have ns: "n \<noteq> rb_sentinel t1" and l1: "rbt_at t1 n (lft t1 n) l" and r1: "rbt_at t1 n (rgt t1 n) (plug cm X)" using N1 by auto
  have xin: "x = rb_sentinel t1 \<or> x \<in> set_tree X" using rbt_at_in [OF X] by blast
  have nm: "m \<noteq> n" "x \<noteq> n" "x \<noteq> m" using m ns xin dd(3) m' by auto
  have q: "q = fst (snd (hd ?c))" using ctx_at_parent [OF ctx] by simp
  have qcm: "q = n \<longleftrightarrow> cm = []" using q dd(3) by (cases cm rule: cset.cases) auto
  define t2 where "t2 = replace_node n m t1"
  note h = replace_node_holds [OF c1 N1 d' m' m(2), folded t2_def]
  obtain p q' where pq: "ctx_at t2 ?c' p q'" "rbt_at t2 q' p X"
    using rbt_at_plugD [of t2 m "rgt t2 m" cm X "(R, m, l) # c"] h(1-3) by auto
  have p: "p = x" using pq(2) X h(3) by (cases X) auto
  have q': "q' = q2" using ctx_at_parent [OF pq(1)] q qcm by (cases cm) (auto simp: q2_def)
  have move: "t3 = set_parent x q2 t2"
    unfolding t3_def t2_def q2_def u(1)
  proof (rule move_reparent [OF nm u(2)])
    show "rgt u n = x" if "q = n" using that qcm ctx u(1) by simp
    show "x = rb_sentinel u \<or> x \<noteq> lft u n \<and> x \<noteq> rgt u n" if "q \<noteq> n"
    proof -
      have "cm \<noteq> []" using that qcm by simp
      then have "rgt t1 n \<in> cset cm" using r1 plug_root [of cm X] last_cset [of cm] by auto
      moreover have "lft t1 n \<in> set_tree l" using rbt_at_rootD [OF l1 l] by simp
      ultimately show ?thesis using xin dX dd(4) u(1) by auto
    qed
    show "n \<noteq> rb_root u \<longrightarrow> par u n \<noteq> n \<and> par u n \<noteq> m"
      using ctx_at_parent [OF c1] ctx_at_rootD [OF c1] dd(1) m' u(1) nm(2) by auto
    show "lft u n \<noteq> m" "rgt u n \<noteq> m" using rbt_at_in [OF l1] rbt_at_in [OF r1] m' m(2) u(1) by auto
  qed
  have par: "x \<noteq> rb_sentinel t1 \<Longrightarrow> t3 = t2" using move pq(2) p q' xin by (cases X) (auto simp: set_parent_id)
  have nx: "rb_nodes t3 a = rb_nodes t2 a" if "a \<noteq> rb_sentinel t1" for a
    using par move that by (cases "x = rb_sentinel t1") (auto simp: set_parent_def upd_node_def)
  have rt: "rb_root t3 = rb_root t2" "rb_sentinel t3 = rb_sentinel t2" by (simp_all add: move)
  show "rb_sentinel t3 = rb_sentinel t1" using rt h(3) by simp
  show "ctx_at t3 ?c' x q2"
    by (rule ctx_at_frame [OF pq(1) [unfolded p q'] rt(2,1)]) (use nx ctx_at_sentinel [OF pq(1)] h(3) in metis)
  show "rbt_at t3 q2 x X"
    by (rule rbt_at_frame [OF pq(2) [unfolded p q'] rt(2)]) (use nx rbt_at_sentinel [OF pq(2)] h(3) in metis)
  show "par t3 x = q2" by (simp add: move)
  show "red t3 = (red t1)(m := red t1 n)" unfolding h(4) [symmetric] by (auto simp: move)
  show "key t3 a = key t1 a" for a using h(5) by (simp add: move)
  show "rb_nodes t3 a = rb_nodes t1 a" if "a \<noteq> rb_sentinel t1" "a \<noteq> m" "a \<notin> set_tree (plug ?c X)" for a
    using nx h(6) that unfolding pl by simp
qed

lemma delete_inner:
  assumes t: "rb_tree t T" and T: "T = plug c (Node l n (plug cm (Node Leaf m X)))" and l: "l \<noteq> Leaf" and cm: "cl cm = []"
    and null: "NULL \<notin> set_tree T" and ctx: "ctx_at t c n q0" and N: "rbt_at t q0 n (Node l n (plug cm (Node Leaf m X)))"
  shows "\<exists>t'. gfs_rbtree_delete n t = Some t' \<and> cut_node n t T t'"
proof -
  let ?c = "cm @ (R, n, l) # c" and ?c' = "cm @ (R, m, l) # c" and ?r = "plug cm (Node Leaf m X)"
  have inv: "invc (red t) T" "invh (red t) T" "\<not> root_red (red t) T" "distinct (inorder T)" "\<not> red t (rb_sentinel t)"
    using t by (auto simp: rb_tree_def)
  have TM: "T = plug ?c (branch R X m Leaf)" by (simp add: T plug_append)
  have ns: "n \<noteq> rb_sentinel t" and pn: "par t n = q0" and lt: "rbt_at t n (lft t n) l" and rt: "rbt_at t n (rgt t n) ?r"
    using N by auto
  obtain p q where "ctx_at t ?c p q" and "rbt_at t q p (Node Leaf m X)"
    using rbt_at_plugD [OF rt, of "(R, n, l) # c"] ctx lt ns pn by auto
  then have ctxm: "ctx_at t ?c m q" and M: "rbt_at t q m (branch R X m Leaf)" by auto
  let ?x = "rgt t m"
  have X: "rbt_at t m ?x X" and ms: "m \<noteq> rb_sentinel t" and lm: "lft t m = rb_sentinel t" and pm: "par t m = q" using M by auto
  have dT: "distinct (cl c @ inorder l @ n # m # inorder X @ cr cm @ cr c)" using inv(4) by (simp add: T inorder_plug cm)
  have io: "inorder (plug ?c' X) = filter (\<lambda>a. a \<noteq> n) (inorder T)"
  proof -
    have "filter (\<lambda>a. a \<noteq> n) ys = ys" if "n \<notin> set ys" for ys using that by (auto simp: filter_id_conv)
    then show ?thesis using dT by (auto simp: T plug_append inorder_plug cm)
  qed
  have mn: "m \<noteq> n" using dT by auto
  have rl: "?r \<noteq> Leaf" using inorder_plug [of cm "Node Leaf m X"] by (cases ?r) auto
  have sub: "delete_subst n t = Some (?x, m)"
  proof -
    have "gfs_rbtree_min t (rgt t n) = Some (hd (inorder ?r))" using rbt_at_min [OF rt rl] null by (auto simp: T)
    then show ?thesis
      using rbt_at_rootD [OF lt l] rbt_at_rootD [OF rt rl] lm by (simp add: delete_subst_def inorder_plug cm)
  qed
  have root: "m \<noteq> rb_root t"
    using ctx_at_rootD [OF ctxm] distinct_plugD [OF inv(4) [unfolded TM]] by auto
  let ?u = "link q m ?x t" and ?t1 = "set_parent ?x q (link q m ?x t)"
  have cne: "?c \<noteq> []" by simp
  note u = unlink_holds [OF ctxm cne M X inv(4) [unfolded TM]]
  have red1: "red ?t1 = red t" and s1: "rb_sentinel ?t1 = rb_sentinel t" by (auto simp: link_fields)
  have dX: "distinct (inorder (plug ?c X))" "m \<notin> set_tree (plug ?c X)"
    using dT by (auto simp: plug_append inorder_plug cm simp flip: set_inorder)
  let ?t3 = "delete_move n m ?x ?u" and ?q2 = "if q = n then m else q"
  have pu: "par ?u m = q" by (simp add: link_fields pm)
  note h = inner_moved [OF u(1-3) l dX _ refl pu, unfolded s1, OF ms]
  have r: "rest_ok (red ?t3) (red t m) ?c' X"
  proof -
    have "rest_ok (red t) (red t m) ?c X"
      by (rule cut_colours [of _ _ R]) (use inv TM in simp_all)
    moreover have "red ?t3 = (red t)(m := red t n)" using h(4) unfolding red1 by (simp add: link_fields)
    ultimately show ?thesis using rest_rename dX(2) by metis
  qed
  have stT: "set_tree T = insert m (set_tree (plug ?c X))" by (auto simp: TM)
  have sen3: "\<not> red ?t3 (rb_sentinel ?t3)" using inv(5) ms fun_cong [OF h(4), of "rb_sentinel t"] by (simp add: h(5) link_fields)
  have "?x = rb_sentinel t \<or> ?x \<in> set_tree T" "q \<in> set_tree T"
    using rbt_at_in [OF X] ctx_at_parent [OF ctxm] by (auto simp: TM)
  then have fr: "rb_nodes ?t3 a = rb_nodes t a" if "a \<notin> set_tree T" "a \<noteq> rb_sentinel t" for a
    using h(7) [of a] u(6) [of a] that stT by auto
  have del: "gfs_rbtree_delete n t = (let t1 = clear_node n ?t3 in if red t m then Some t1 else fixup_loop ?x t1)"
    using delete_unfold [OF sub root] mn by (simp only: pm if_False Let_def)
  have "n \<in> set_tree T" by (simp add: T)
  then show ?thesis
    unfolding del using h(6) by (intro cut_finish [OF h(1-3) _ r sen3 h(5) _ ns io _ fr]) (simp_all add: link_fields)
qed

text \<open>The whole function: deleting a stored node ends, and the result is the tree without the node.\<close>

lemma delete_correct:
  assumes t: "rb_tree t T" and n: "n \<in> set_tree T" and null: "NULL \<notin> set_tree T"
  shows "\<exists>t'. gfs_rbtree_delete n t = Some t' \<and> cut_node n t T t'"
proof -
  obtain c l r where T: "T = plug c (Node l n r)" using tree_focus [OF n] by blast
  have "rbt_holds t (plug c (Node l n r))" using t T by (simp add: rb_tree_def)
  then obtain q where ctx: "ctx_at t c n q" and N: "rbt_at t q n (Node l n r)"
    unfolding rbt_holds_plug by auto
  show ?thesis
  proof (cases "l = Leaf \<or> r = Leaf")
    case True
    then obtain d X x where B: "Node l n r = branch d X n Leaf" and "delete_subst n t = Some (x, n)" and "rbt_at t n x X"
    proof (cases "l = Leaf")
      case True
      then show ?thesis using that [of R r "rgt t n"] N by (simp add: delete_subst_def)
    next
      case False
      then have "lft t n \<noteq> rb_sentinel t" "r = Leaf" using N rbt_at_rootD [of t n "lft t n" l] \<open>l = Leaf \<or> r = Leaf\<close> by auto
      then show ?thesis using that [of L l "lft t n"] N by (simp add: delete_subst_def)
    qed
    then show ?thesis using delete_leafy [OF t] T ctx N by metis
  next
    case False
    then obtain cm m X where "r = plug cm (Node Leaf m X)" "cl cm = []" using min_focus [of r] by blast
    then show ?thesis using delete_inner [OF t _ _ _ null] T ctx N False by blast
  qed
qed

lemma key_tree_delete:
  assumes t: "key_tree t T" and n: "n \<in> set_tree T"
  shows "\<exists>t' T'. gfs_rbtree_delete n t = Some t' \<and> key_tree t' T' \<and> set_tree T' = set_tree T - {n}
    \<and> rb_sentinel t' = rb_sentinel t \<and> (\<forall>a. a \<noteq> n \<longrightarrow> key t' a = key t a)"
proof -
  have rb: "rb_tree t T" "sorted_wrt (\<lambda>a b. key t a < key t b) (inorder T)" "NULL \<notin> set_tree T"
    using t by (auto simp: key_tree_def)
  obtain t' T' where d: "gfs_rbtree_delete n t = Some t'" and T': "rb_tree t' T'" "inorder T' = filter (\<lambda>a. a \<noteq> n) (inorder T)"
    and s: "rb_sentinel t' = rb_sentinel t" and k: "\<forall>a. a \<noteq> n \<longrightarrow> key t' a = key t a"
    using delete_correct [OF rb(1) n rb(3)] unfolding cut_node_def by blast
  have st: "set_tree T' = set_tree T - {n}" using T'(2) by (metis set_inorder set_minus_filter_out)
  have "sorted_wrt (\<lambda>a b. key t a < key t b) (inorder T')" unfolding T'(2) by (rule sorted_wrt_filter [OF rb(2)])
  then have "sorted_wrt (\<lambda>a b. key t' a < key t' b) (inorder T')"
    by (rule sorted_wrt_mono_rel [rotated]) (use k st in auto)
  then have "key_tree t' T'" using T'(1) st rb(3) by (auto simp: key_tree_def)
  then show ?thesis using d st s k by blast
qed

section \<open>The interface with deletion\<close>

text \<open>An index from which nodes can also be deleted; the keys of the other nodes stay.\<close>

locale key_index_del = key_index +
  fixes del :: "addr \<Rightarrow> 'a \<Rightarrow> 'a option"
  assumes del_at: "at s A \<Longrightarrow> a \<in> A \<Longrightarrow>
      \<exists>s'. del a s = Some s' \<and> at s' (A - {a}) \<and> (\<forall>b. b \<noteq> a \<longrightarrow> keyof s' b = keyof s b) \<and> (\<forall>b. node_ok s' b = node_ok s b)"
    and keyof_inj: "at s A \<Longrightarrow> a \<in> A \<Longrightarrow> b \<in> A \<Longrightarrow> keyof s a = keyof s b \<Longrightarrow> a = b"
begin

lemma del_look:
  assumes at: "at s A" and a: "a \<in> A"
  shows "\<exists>s'. del a s = Some s' \<and> at s' (A - {a}) \<and> (\<forall>b. b \<noteq> a \<longrightarrow> keyof s' b = keyof s b) \<and> (\<forall>b. node_ok s' b = node_ok s b)
    \<and> look s' (keyof s a) = Some NULL \<and> (\<forall>k. k \<noteq> keyof s a \<longrightarrow> look s' k = look s k)"
proof -
  obtain s' where s': "del a s = Some s'" "at s' (A - {a})" and k: "\<And>b. b \<noteq> a \<Longrightarrow> keyof s' b = keyof s b"
    and ok: "\<forall>b. node_ok s' b = node_ok s b"
    using del_at [OF at a] by blast
  have img: "keyof s' ` (A - {a}) = keyof s ` A - {keyof s a}"
    using k keyof_inj [OF at a] a by (auto simp: image_iff) metis
  have "look s' k' = look s k'" if "k' \<noteq> keyof s a" for k'
  proof (rule look_cases [OF at, of k'])
    fix b assume "b \<in> A" "keyof s b = k'" "look s k' = Some b"
    then show "look s' k' = look s k'" using hit [OF s'(2), of b] k [of b] that by auto
  next
    assume "k' \<notin> keyof s ` A" "look s k' = Some NULL"
    then show "look s' k' = look s k'" using miss [OF s'(2), of k'] img by auto
  qed
  moreover have "look s' (keyof s a) = Some NULL" using miss [OF s'(2)] img by auto
  ultimately show ?thesis using s' k ok by blast
qed

end

interpretation kd: key_index_del tree_at "\<lambda>t. key t" tree_node set_key
  "gfs_rbtree_insert gfs_rbtree_insert_value" gfs_rbtree_lookup_value gfs_rbtree_delete
proof (unfold_locales, goal_cases)
  case (1 s A a)
  then obtain T where T: "key_tree s T" "set_tree T = A" by (auto simp: tree_at_def)
  then obtain t' T' where "gfs_rbtree_delete a s = Some t'" "key_tree t' T'" "set_tree T' = A - {a}"
      "rb_sentinel t' = rb_sentinel s" "\<forall>b. b \<noteq> a \<longrightarrow> key t' b = key s b"
    using key_tree_delete [OF T(1), of a] 1(2) by auto
  then show ?case by (auto simp: tree_at_def tree_node_def)
next
  case (2 s A a b)
  then show ?case using key_tree_inj by (auto simp: tree_at_def)
qed

section \<open>Properties\<close>



end
