(* ===== verification/Net_map.thy ===== *)
theory Net_map
  imports Queue Rbtree_Delete
begin

text \<open>
  \<open>net/gfs_net_map.c\<close>: the directory of the data servers. Its nodes are the 1024 elements of one array;
  a node is on the free list \<open>maplist\<close>, or it is in the red-black tree by data server id and in the
  queue \<open>dslist\<close> at the same time. Node \<open>map[i]\<close> has the address \<open>i + 1\<close>, the tree's sentinel and the
  head of the queue have addresses of their own. A stored value is the address of a connection.
\<close>

section \<open>State\<close>

record net_map =
  maplist :: addr
  m_next :: "addr \<Rightarrow> addr"
  m_data :: "addr \<Rightarrow> addr"
  m_tree :: rbt
  m_list :: qstore
  sort_time :: int

definition map_sentinel :: addr where "map_sentinel = 1025"
definition dslist :: addr where "dslist = 1026"

section \<open>Operations\<close>

text \<open>
  The loop of \<open>gfs_net_map_init\<close> over the array, from index \<open>i\<close>: each element points to the one
  before it. The result is the last element and the new links.
\<close>

function map_chain :: "nat \<Rightarrow> addr \<Rightarrow> (addr \<Rightarrow> addr) \<Rightarrow> addr \<times> (addr \<Rightarrow> addr)" where
  "map_chain i nxt links =
     (if i < GFS_NET_DS_MAPS then map_chain (i + 1) (i + 1) (links(i + 1 := nxt)) else (nxt, links))"
  by pat_completeness auto

termination
  by (relation "measure (\<lambda>(i, _, _). GFS_NET_DS_MAPS - i)") auto

declare map_chain.simps [simp del]

definition gfs_net_map_init :: "net_map \<Rightarrow> int \<times> net_map" where
  "gfs_net_map_init m =
     (let (l, links) = map_chain 0 NULL (m_next m)
      in (GFS_OK, m\<lparr>maplist := l, m_next := links, m_tree := gfs_rbtree_init map_sentinel (m_tree m),
            m_list := gfs_queue_init dslist (m_list m)\<rparr>))"

definition gfs_net_map_add :: "u32 \<Rightarrow> addr \<Rightarrow> net_map \<Rightarrow> (int \<times> net_map) option" where
  "gfs_net_map_add keyid net m =
     (if maplist m = NULL then Some (GFS_ERR, m)
      else do {
        p \<leftarrow> gfs_rbtree_lookup_value (m_tree m) keyid;
        if p \<noteq> NULL then Some (GFS_OK, m\<lparr>m_data := (m_data m)(p := net)\<rparr>)
        else do {
          let p = maplist m;
          let m = m\<lparr>maplist := m_next m p, m_data := (m_data m)(p := net),
                    m_tree := set_key p keyid (m_tree m)\<rparr>;
          t \<leftarrow> gfs_rbtree_insert gfs_rbtree_insert_value p (m_tree m);
          Some (GFS_OK, m\<lparr>m_tree := t, m_list := gfs_queue_insert_tail dslist p (m_list m)\<rparr>)
        }
      })"

definition gfs_net_map_get :: "u32 \<Rightarrow> net_map \<Rightarrow> addr option" where
  "gfs_net_map_get keyid m = do {
     p \<leftarrow> gfs_rbtree_lookup_value (m_tree m) keyid;
     Some (if p \<noteq> NULL then m_data m p else NULL)
   }"

definition gfs_net_map_remove :: "u32 \<Rightarrow> net_map \<Rightarrow> (int \<times> net_map) option" where
  "gfs_net_map_remove keyid m =
     (if maplist m = NULL then Some (GFS_ERR, m)
      else do {
        p \<leftarrow> gfs_rbtree_lookup_value (m_tree m) keyid;
        if p \<noteq> NULL then do {
          t \<leftarrow> gfs_rbtree_delete p (m_tree m);
          Some (GFS_OK, m\<lparr>m_tree := t, m_list := gfs_queue_remove p (m_list m)\<rparr>)
        }
        else Some (GFS_OK, m)
      })"

text \<open>
  \<open>gfs_net_ds_cmp\<close> casts the address of a map node to \<open>gfs_net_t *\<close> and reads \<open>user.weight\<close> and
  \<open>user.cfft\<close> at the offsets of that structure, that is from the memory behind the node and not from
  the connection the node refers to. What stands there is not determined by the directory:
  \<open>raw\<close> gives the two words for a node.
\<close>

definition gfs_net_ds_cmp :: "(addr \<Rightarrow> u32 \<times> u32) \<Rightarrow> addr \<Rightarrow> addr \<Rightarrow> int" where
  "gfs_net_ds_cmp raw qn1 qn2 =
     (let weight1 = fst (raw qn1) + snd (raw qn1);
          weight2 = fst (raw qn2) + snd (raw qn2)
      in if weight1 > weight2 then 1 else 0)"

partial_function (option) topn_loop :: "net_map \<Rightarrow> addr \<Rightarrow> nat \<Rightarrow> nat \<Rightarrow> addr list option" where
  [code]: "topn_loop m q index num =
     (if q = dslist then Some []
      else if index + 1 \<ge> num then Some [m_data m q]
      else do {
        r \<leftarrow> topn_loop m (q_next (m_list m) q) (index + 1) num;
        Some (m_data m q # r)
      })"

text \<open>The connections are the result; \<open>*num\<close> becomes their number.\<close>

definition gfs_net_map_gettopn ::
  "(addr \<Rightarrow> u32 \<times> u32) \<Rightarrow> int \<Rightarrow> nat \<Rightarrow> net_map \<Rightarrow> (int \<times> addr list \<times> net_map) option" where
  "gfs_net_map_gettopn raw now num m =
     (if num < 1 then Some (GFS_ERR, [], m)
      else do {
        m \<leftarrow> (if now - sort_time m \<ge> 5 * 60
             then do {
               l \<leftarrow> gfs_queue_sort (gfs_net_ds_cmp raw) dslist (m_list m);
               Some (m\<lparr>m_list := l, sort_time := now\<rparr>)
             }
             else Some m);
        r \<leftarrow> topn_loop m (q_next (m_list m) dslist) 0 num;
        Some (GFS_OK, r, m)
      })"

section \<open>The directory invariant\<close>

text \<open>
  \<open>map_ok m xs ys\<close>: the nodes \<open>xs\<close> are in the tree and, in this order, in the queue, the nodes \<open>ys\<close>
  are on the free list, and the two are different elements of the array.
\<close>

fun free_chain :: "(addr \<Rightarrow> addr) \<Rightarrow> addr \<Rightarrow> addr list \<Rightarrow> bool" where
  "free_chain nx p [] \<longleftrightarrow> p = NULL"
| "free_chain nx p (a # as) \<longleftrightarrow> p = a \<and> a \<noteq> NULL \<and> free_chain nx (nx a) as"

definition map_ok :: "net_map \<Rightarrow> addr list \<Rightarrow> addr list \<Rightarrow> bool" where
  "map_ok m xs ys \<longleftrightarrow> tree_at (m_tree m) (set xs) \<and> rb_sentinel (m_tree m) = map_sentinel
     \<and> queue_at (m_list m) dslist xs \<and> free_chain (m_next m) (maplist m) ys
     \<and> distinct (xs @ ys) \<and> set (xs @ ys) \<subseteq> {1..GFS_NET_DS_MAPS}"

lemma free_chain_upd: "a \<notin> set ys \<Longrightarrow> free_chain (nx(a := v)) p ys = free_chain nx p ys"
  by (induction ys arbitrary: p) auto

lemma map_chain_ok:
  "i \<le> GFS_NET_DS_MAPS \<Longrightarrow> free_chain links nxt ys \<Longrightarrow> distinct ys \<Longrightarrow> set ys = {1..i} \<Longrightarrow>
   \<exists>zs. free_chain (snd (map_chain i nxt links)) (fst (map_chain i nxt links)) zs \<and> distinct zs
     \<and> set zs = {1..GFS_NET_DS_MAPS}"
proof (induction i nxt links arbitrary: ys rule: map_chain.induct)
  case (1 i nxt links)
  show ?case
  proof (cases "i < GFS_NET_DS_MAPS")
    case True
    have "free_chain (links(i + 1 := nxt)) (i + 1) ((i + 1) # ys)"
      using "1.prems" by (simp add: free_chain_upd)
    moreover have "set ((i + 1) # ys) = {1..i + 1}" using "1.prems" by auto
    ultimately show ?thesis
      using "1.IH" [OF True, of "(i + 1) # ys"] "1.prems" True
      by (subst (1 2) map_chain.simps) (simp del: fun_upd_apply)
  next
    case False
    then show ?thesis using "1.prems" by (subst (1 2) map_chain.simps) auto
  qed
qed

lemma map_init_ok: "\<exists>ys. map_ok (snd (gfs_net_map_init m)) [] ys \<and> length ys = GFS_NET_DS_MAPS"
proof -
  obtain l links where eq: "map_chain 0 NULL (m_next m) = (l, links)" by fastforce
  obtain zs where zs: "free_chain links l zs" "distinct zs" "set zs = {1..GFS_NET_DS_MAPS}"
    using map_chain_ok [of 0 "m_next m" NULL "[]"] by (auto simp: eq)
  have "rb_sentinel (gfs_rbtree_init map_sentinel (m_tree m)) = map_sentinel"
    by (simp add: gfs_rbtree_init_def)
  then have "map_ok (snd (gfs_net_map_init m)) [] zs"
    using zs by (simp add: map_ok_def gfs_net_map_init_def eq tree_at_init queue_at_init)
  moreover have "length zs = GFS_NET_DS_MAPS" using zs(2,3) distinct_card by fastforce
  ultimately show ?thesis by blast
qed

text \<open>What the directory holds for an id.\<close>

lemma map_get:
  assumes "map_ok m xs ys"
  shows "a \<in> set xs \<Longrightarrow> gfs_net_map_get (key (m_tree m) a) m = Some (m_data m a)"
    and "k \<notin> key (m_tree m) ` set xs \<Longrightarrow> gfs_net_map_get k m = Some NULL"
proof -
  have t: "tree_at (m_tree m) (set xs)" using assms by (simp add: map_ok_def)
  show "a \<in> set xs \<Longrightarrow> gfs_net_map_get (key (m_tree m) a) m = Some (m_data m a)"
    using kt.hit [OF t, of a] kt.null [OF t] by (auto simp: gfs_net_map_get_def)
  show "k \<notin> key (m_tree m) ` set xs \<Longrightarrow> gfs_net_map_get k m = Some NULL"
    using kt.miss [OF t] by (simp add: gfs_net_map_get_def)
qed

text \<open>Adding: a full directory refuses, a known id is redirected, a new id takes a free node.\<close>

lemma map_add_full: "maplist m = NULL \<Longrightarrow> gfs_net_map_add k c m = Some (GFS_ERR, m)"
  by (simp add: gfs_net_map_add_def)

lemma map_add_known:
  assumes "map_ok m xs ys" and "maplist m \<noteq> NULL" and "a \<in> set xs"
  shows "gfs_net_map_add (key (m_tree m) a) c m = Some (GFS_OK, m\<lparr>m_data := (m_data m)(a := c)\<rparr>)"
proof -
  have t: "tree_at (m_tree m) (set xs)" using assms(1) by (simp add: map_ok_def)
  show ?thesis using assms(2,3) kt.hit [OF t, of a] kt.null [OF t] by (auto simp: gfs_net_map_add_def)
qed

lemma map_add_new:
  assumes ok: "map_ok m xs (y # ys)" and k: "k \<notin> key (m_tree m) ` set xs"
  shows "\<exists>m'. gfs_net_map_add k c m = Some (GFS_OK, m') \<and> map_ok m' (xs @ [y]) ys
    \<and> key (m_tree m') = (key (m_tree m))(y := k) \<and> m_data m' = (m_data m)(y := c) \<and> sort_time m' = sort_time m"
proof -
  have t: "tree_at (m_tree m) (set xs)" and sen: "rb_sentinel (m_tree m) = map_sentinel"
    and q: "queue_at (m_list m) dslist xs" and y: "maplist m = y" "y \<noteq> NULL" "free_chain (m_next m) (m_next m y) ys"
    and d: "distinct (xs @ y # ys)" and r: "set (xs @ y # ys) \<subseteq> {1..GFS_NET_DS_MAPS}"
    using ok by (auto simp: map_ok_def)
  have "y \<noteq> map_sentinel" "y \<noteq> dslist" using r by (auto simp: map_sentinel_def dslist_def GFS_NET_DS_MAPS_def)
  then have "tree_node (m_tree m) y" "y \<notin> set (dslist # xs)" using sen y d by (auto simp: tree_node_def)
  then obtain t' where t': "gfs_rbtree_insert gfs_rbtree_insert_value y (set_key y k (m_tree m)) = Some t'"
      "tree_at t' (insert y (set xs))" "key t' = (key (m_tree m))(y := k)"
      "\<forall>b. tree_node t' b = tree_node (m_tree m) b"
    using kt.add_new [OF t, of y k] d k by auto
  have "rb_sentinel t' = map_sentinel"
    using t'(4) sen by (metis tree_node_def map_sentinel_def zero_neq_numeral)
  moreover have "queue_at (gfs_queue_insert_tail dslist y (m_list m)) dslist (xs @ [y])"
    using queue_at_insert_tail [OF q] \<open>y \<notin> set (dslist # xs)\<close> by simp
  ultimately show ?thesis
    using t' y kt.miss [OF t k] d r by (auto simp: gfs_net_map_add_def Let_def map_ok_def)
qed

section \<open>The abstract directory\<close>

text \<open>
  The directory as a finite map from ids to connections, and the refinement: adding is a map update as
  long as a node is free, looking up is applying the map.
\<close>

definition map_abs :: "net_map \<Rightarrow> addr list \<Rightarrow> u32 \<rightharpoonup> addr" where
  "map_abs m xs k = map_option (m_data m) (find (\<lambda>a. key (m_tree m) a = k) xs)"

lemma map_abs_hit:
  assumes "map_ok m xs ys" and "a \<in> set xs"
  shows "map_abs m xs (key (m_tree m) a) = Some (m_data m a)"
proof -
  obtain b where b: "find (\<lambda>x. key (m_tree m) x = key (m_tree m) a) xs = Some b"
    using assms(2) find_None_iff [of "\<lambda>x. key (m_tree m) x = key (m_tree m) a" xs] by auto
  then have "b \<in> set xs" "key (m_tree m) b = key (m_tree m) a" by (auto simp: find_Some_iff)
  moreover obtain T where "key_tree (m_tree m) T" "set_tree T = set xs"
    using assms(1) by (auto simp: map_ok_def tree_at_def)
  ultimately have "b = a" using key_tree_inj assms(2) by metis
  then show ?thesis using b by (simp add: map_abs_def)
qed

lemma map_abs_miss: "k \<notin> key (m_tree m) ` set xs \<Longrightarrow> map_abs m xs k = None"
  using find_None_iff [of "\<lambda>x. key (m_tree m) x = k" xs] by (auto simp: map_abs_def)

lemma find_app: "find P (us @ vs) = (case find P us of None \<Rightarrow> find P vs | Some x \<Rightarrow> Some x)"
  by (induction us) auto

lemma find_in: "find P xs = Some y \<Longrightarrow> y \<in> set xs"
  by (auto simp: find_Some_iff)

lemma find_snoc_upd:
  assumes "k \<notin> f ` set xs" and "g y = k" and "\<And>a. a \<in> set xs \<Longrightarrow> g a = f a"
  shows "find (\<lambda>a. g a = k') (xs @ [y]) = (if k' = k then Some y else find (\<lambda>a. f a = k') xs)"
proof -
  have "find (\<lambda>a. g a = k') xs = find (\<lambda>a. f a = k') xs" using assms(3) by (intro find_cong) auto
  moreover have "k' = k \<Longrightarrow> find (\<lambda>a. f a = k') xs = None" using assms(1) by (auto simp: find_None_iff)
  ultimately show ?thesis using assms(2) by (auto simp: find_app split: option.splits)
qed

lemma map_get_abs:
  assumes "map_ok m xs ys"
  shows "gfs_net_map_get k m = Some (case map_abs m xs k of None \<Rightarrow> NULL | Some c \<Rightarrow> c)"
proof (cases "k \<in> key (m_tree m) ` set xs")
  case True
  then show ?thesis using map_get(1) [OF assms] map_abs_hit [OF assms] by auto
next
  case False
  then show ?thesis using map_get(2) [OF assms] map_abs_miss by simp
qed

lemma map_add_abs:
  assumes ok: "map_ok m xs ys" and ne: "ys \<noteq> []"
  shows "\<exists>m' xs' ys'. gfs_net_map_add k c m = Some (GFS_OK, m') \<and> map_ok m' xs' ys'
    \<and> map_abs m' xs' = (map_abs m xs)(k \<mapsto> c) \<and> length ys \<le> Suc (length ys')"
proof (cases "k \<in> key (m_tree m) ` set xs")
  case True
  then obtain a where a: "a \<in> set xs" "key (m_tree m) a = k" by auto
  have "maplist m \<noteq> NULL" using ok ne by (cases ys) (auto simp: map_ok_def)
  then have add: "gfs_net_map_add k c m = Some (GFS_OK, m\<lparr>m_data := (m_data m)(a := c)\<rparr>)"
    using map_add_known [OF ok _ a(1)] a(2) by simp
  have ok': "map_ok (m\<lparr>m_data := (m_data m)(a := c)\<rparr>) xs ys" using ok by (simp add: map_ok_def)
  have "map_abs (m\<lparr>m_data := (m_data m)(a := c)\<rparr>) xs k' = ((map_abs m xs)(k \<mapsto> c)) k'" for k'
  proof (cases "k' \<in> key (m_tree m) ` set xs")
    case True
    then obtain b where "b \<in> set xs" "key (m_tree m) b = k'" by auto
    then show ?thesis
      using map_abs_hit [OF ok', of b] map_abs_hit [OF ok, of b] a map_abs_hit [OF ok' a(1)] by auto
  next
    case False
    then show ?thesis using a map_abs_miss [of k' m xs] map_abs_miss [of k' "m\<lparr>m_data := (m_data m)(a := c)\<rparr>" xs] by auto
  qed
  then have "map_abs (m\<lparr>m_data := (m_data m)(a := c)\<rparr>) xs = (map_abs m xs)(k \<mapsto> c)" by auto
  then show ?thesis using add ok' by fastforce
next
  case False
  obtain y zs where ys: "ys = y # zs" using ne by (cases ys) auto
  have d: "y \<notin> set xs" using ok ys by (auto simp: map_ok_def)
  obtain m' where m': "gfs_net_map_add k c m = Some (GFS_OK, m')" "map_ok m' (xs @ [y]) zs"
      "key (m_tree m') = (key (m_tree m))(y := k)" "m_data m' = (m_data m)(y := c)"
    using map_add_new [OF ok [unfolded ys] False] by blast
  have find: "find (\<lambda>a. key (m_tree m') a = k') (xs @ [y]) =
      (if k' = k then Some y else find (\<lambda>a. key (m_tree m) a = k') xs)" for k'
    by (rule find_snoc_upd [OF False]) (use d fun_cong [OF m'(3)] in auto)
  have "map_abs m' (xs @ [y]) k' = ((map_abs m xs)(k \<mapsto> c)) k'" for k'
    using d m'(4) find_in [of "\<lambda>a. key (m_tree m) a = k'" xs y] by (auto simp: map_abs_def find intro!: option.map_cong)
  then have "map_abs m' (xs @ [y]) = (map_abs m xs)(k \<mapsto> c)" by auto
  then show ?thesis using m'(1,2) ys by fastforce
qed

text \<open>
  Removing is a map update too, as long as a node is free. The node leaves the tree and the queue but does
  not come back to the free list, which is the same as before.
\<close>

lemma map_remove_known:
  assumes ok: "map_ok m xs ys" and ne: "maplist m \<noteq> NULL" and a: "a \<in> set xs"
  shows "\<exists>m'. gfs_net_map_remove (key (m_tree m) a) m = Some (GFS_OK, m') \<and> map_ok m' (remove1 a xs) ys
    \<and> (\<forall>b. b \<noteq> a \<longrightarrow> key (m_tree m') b = key (m_tree m) b) \<and> m_data m' = m_data m"
proof -
  have t: "tree_at (m_tree m) (set xs)" and sen: "rb_sentinel (m_tree m) = map_sentinel"
    and q: "queue_at (m_list m) dslist xs" and d: "distinct (xs @ ys)"
    using ok by (auto simp: map_ok_def)
  obtain t' where t': "gfs_rbtree_delete a (m_tree m) = Some t'" "tree_at t' (set xs - {a})"
      "\<forall>b. b \<noteq> a \<longrightarrow> key t' b = key (m_tree m) b" "\<forall>b. tree_node t' b = tree_node (m_tree m) b"
    using kd.del_at [OF t a] by blast
  have s': "rb_sentinel t' = map_sentinel"
    using t'(4) sen by (metis tree_node_def map_sentinel_def zero_neq_numeral)
  obtain us vs where xs: "xs = us @ a # vs" "a \<notin> set us" using a by (metis split_list_first)
  then have rm: "remove1 a xs = us @ vs" by (simp add: remove1_append)
  have "queue_at (gfs_queue_remove a (m_list m)) dslist (us @ vs)" using queue_at_remove q xs by simp
  moreover have "set (us @ vs) = set xs - {a}" using d xs by auto
  ultimately have "map_ok (m\<lparr>m_tree := t', m_list := gfs_queue_remove a (m_list m)\<rparr>) (remove1 a xs) ys"
    unfolding rm using ok t' s' d xs by (auto simp: map_ok_def)
  moreover have "gfs_net_map_remove (key (m_tree m) a) m = Some (GFS_OK, m\<lparr>m_tree := t', m_list := gfs_queue_remove a (m_list m)\<rparr>)"
    using ne a t'(1) kt.hit [OF t a] kt.null [OF t] by (auto simp: gfs_net_map_remove_def)
  ultimately show ?thesis using t'(3) by fastforce
qed

lemma map_remove_abs:
  assumes ok: "map_ok m xs ys" and ne: "ys \<noteq> []"
  shows "\<exists>m' xs'. gfs_net_map_remove k m = Some (GFS_OK, m') \<and> map_ok m' xs' ys \<and> map_abs m' xs' = (map_abs m xs)(k := None)"
proof -
  have mp: "maplist m \<noteq> NULL" using ok ne by (cases ys) (auto simp: map_ok_def)
  have t: "tree_at (m_tree m) (set xs)" using ok by (simp add: map_ok_def)
  show ?thesis
  proof (cases "k \<in> key (m_tree m) ` set xs")
    case False
    then have "gfs_net_map_remove k m = Some (GFS_OK, m)" using mp kt.miss [OF t] by (simp add: gfs_net_map_remove_def)
    moreover have "map_abs m xs = (map_abs m xs)(k := None)" using map_abs_miss [OF False] by (auto simp: fun_eq_iff)
    ultimately show ?thesis using ok by metis
  next
    case True
    then obtain a where a: "a \<in> set xs" "key (m_tree m) a = k" by auto
    obtain m' where m': "gfs_net_map_remove k m = Some (GFS_OK, m')" "map_ok m' (remove1 a xs) ys"
        "\<And>b. b \<noteq> a \<Longrightarrow> key (m_tree m') b = key (m_tree m) b" "m_data m' = m_data m"
      using map_remove_known [OF ok mp a(1)] a(2) by blast
    have st: "set (remove1 a xs) = set xs - {a}" using ok by (simp add: map_ok_def)
    have "map_abs m' (remove1 a xs) k' = ((map_abs m xs)(k := None)) k'" for k'
    proof (cases "k' \<noteq> k \<and> k' \<in> key (m_tree m) ` set xs")
      case True
      then obtain b where "b \<in> set xs" "b \<noteq> a" "key (m_tree m) b = k'" using a by auto
      then show ?thesis using map_abs_hit [OF m'(2), of b] map_abs_hit [OF ok, of b] m'(3) [of b] st m'(4) True by auto
    next
      case False
      have "k' \<notin> key (m_tree m') ` set (remove1 a xs)"
      proof
        assume "k' \<in> key (m_tree m') ` set (remove1 a xs)"
        then obtain b where "b \<in> set xs" "b \<noteq> a" "key (m_tree m) b = k'" using m'(3) unfolding st by auto
        then show False using False a kd.keyof_inj [OF t a(1), of b] by auto
      qed
      then have "map_abs m' (remove1 a xs) k' = None" by (rule map_abs_miss)
      then show ?thesis using False map_abs_miss [of k' m xs] by auto
    qed
    then show ?thesis using m'(1,2) by blast
  qed
qed

section \<open>The first data servers of the list\<close>

lemma topn_loop_from:
  "queue_at (m_list m) dslist (as @ bs) \<Longrightarrow> index < num \<Longrightarrow>
   topn_loop m (hd (bs @ [dslist])) index num = Some (map (m_data m) (take (num - index) bs))"
proof (induction bs arbitrary: as index)
  case Nil
  then show ?case by (simp add: topn_loop.simps)
next
  case (Cons b bs)
  have b: "b \<noteq> dslist" using Cons.prems by (auto simp: queue_at_def)
  show ?case
  proof (cases "index + 1 < num")
    case True
    then have "topn_loop m (hd (bs @ [dslist])) (index + 1) num = Some (map (m_data m) (take (num - (index + 1)) bs))"
      using Cons.IH [of "as @ [b]" "index + 1"] Cons.prems by simp
    then show ?thesis
      using b True queue_at_next [OF Cons.prems(1)]
      by (simp add: topn_loop.simps [of m b] Suc_diff_Suc take_Cons')
  next
    case False
    then have "num - index = 1" using Cons.prems(2) by simp
    then show ?thesis using b False by (simp add: topn_loop.simps [of m b])
  qed
qed

text \<open>The number of results is at most the number asked for, whatever the state of the list.\<close>

lemma topn_loop_bound:
  assumes "topn_loop m q index num = Some r" shows "index < num \<longrightarrow> length r \<le> num - index"
proof (rule topn_loop.raw_induct [OF _ assms], goal_cases)
  case (1 f m q index num r)
  then show ?case by (fastforce simp: bind_eq_Some_conv split: if_splits)
qed

lemma gettopn_bound: "gfs_net_map_gettopn raw now num m = Some (ret, r, m') \<Longrightarrow> length r \<le> num"
  by (auto simp: gfs_net_map_gettopn_def bind_eq_Some_conv dest!: topn_loop_bound split: if_splits)

definition ds_weight :: "(addr \<Rightarrow> u32 \<times> u32) \<Rightarrow> addr \<Rightarrow> u32" where
  "ds_weight raw a = fst (raw a) + snd (raw a)"

lemma ds_cmp_key: "gfs_net_ds_cmp raw a b \<le> 0 \<longleftrightarrow> ds_weight raw a \<le> ds_weight raw b"
  by (auto simp: gfs_net_ds_cmp_def ds_weight_def Let_def not_le not_less)

lemma gettopn_correct:
  assumes ok: "map_ok m xs ys" and num: "0 < num"
  shows "\<exists>m'. let zs = (if now - sort_time m \<ge> 300 then sort_key (ds_weight raw) xs else xs) in
    gfs_net_map_gettopn raw now num m = Some (GFS_OK, map (m_data m) (take num zs), m')
    \<and> map_ok m' zs ys \<and> m_tree m' = m_tree m \<and> m_data m' = m_data m"
proof -
  have q: "queue_at (m_list m) dslist xs" using ok by (simp add: map_ok_def)
  show ?thesis
  proof (cases "now - sort_time m \<ge> 300")
    case True
    obtain l where l: "gfs_queue_sort (gfs_net_ds_cmp raw) dslist (m_list m) = Some l"
        "queue_at l dslist (sort_key (ds_weight raw) xs)"
      using queue_sort_correct [OF q, of "gfs_net_ds_cmp raw", OF ds_cmp_key] by blast
    let ?m = "m\<lparr>m_list := l, sort_time := now\<rparr>"
    have "topn_loop ?m (q_next l dslist) 0 num = Some (map (m_data m) (take num (sort_key (ds_weight raw) xs)))"
      using topn_loop_from [of ?m "[]" "sort_key (ds_weight raw) xs" 0 num] l(2) num by (simp add: queue_at_head)
    then show ?thesis
      using True l ok num by (intro exI [of _ ?m]) (simp add: gfs_net_map_gettopn_def map_ok_def)
  next
    case False
    have "topn_loop m (q_next (m_list m) dslist) 0 num = Some (map (m_data m) (take num xs))"
      using topn_loop_from [of m "[]" xs 0 num] q num by (simp add: queue_at_head)
    then show ?thesis
      using False ok num by (intro exI [of _ m]) (simp add: gfs_net_map_gettopn_def)
  qed
qed

section \<open>Properties\<close>

definition sample_map :: net_map where
  "sample_map = snd (gfs_net_map_init \<lparr>maplist = 0, m_next = (\<lambda>_. 0), m_data = (\<lambda>_. 0),
     m_tree = \<lparr>rb_nodes = (\<lambda>_. \<lparr>nd_key = 0, nd_left = 0, nd_right = 0, nd_parent = 0, nd_red = False\<rparr>), rb_root = 0,
       rb_sentinel = 0\<rparr>,
     m_list = \<lparr>q_prev = (\<lambda>_. 0), q_next = (\<lambda>_. 0)\<rparr>, sort_time = 0\<rparr>)"

lemma sample_map_ok: "\<exists>ys. map_ok sample_map [] ys \<and> ys \<noteq> []"
  using map_init_ok unfolding sample_map_def by (metis list.size(3) GFS_NET_DS_MAPS_def zero_neq_numeral)

text \<open>
  C36: \<open>gfs_net_map_init\<close> leaves a well-formed directory that is empty and has all 1024 nodes on its
  free list: no id is found, and a data server can be added.
\<close>

theorem map_init_empty:
  "\<exists>m' ys. gfs_net_map_init m = (GFS_OK, m') \<and> map_ok m' [] ys \<and> length ys = 1024
    \<and> (\<forall>k. gfs_net_map_get k m' = Some NULL)"
proof -
  obtain ys where ys: "map_ok (snd (gfs_net_map_init m)) [] ys" "length ys = GFS_NET_DS_MAPS" using map_init_ok by blast
  moreover have "fst (gfs_net_map_init m) = GFS_OK" by (simp add: gfs_net_map_init_def split: prod.split)
  moreover have "gfs_net_map_get k (snd (gfs_net_map_init m)) = Some NULL" for k
    using map_get(2) [OF ys(1)] by simp
  ultimately show ?thesis by (metis GFS_NET_DS_MAPS_def prod.collapse)
qed



text \<open>
  C20: \<open>gfs_net_map_get\<close> ends and applies the map from ids to connections, with \<open>NULL\<close> for an id that is
  not stored.
\<close>

theorem map_get_refines:
  assumes "map_ok m xs ys"
  shows "gfs_net_map_get k m = Some (case map_abs m xs k of None \<Rightarrow> NULL | Some c \<Rightarrow> c)"
  using map_get_abs [OF assms] .

theorem map_get_refines_witness:
  "\<exists>m'. gfs_net_map_add 42 7 sample_map = Some (GFS_OK, m') \<and> gfs_net_map_get 42 m' = Some 7 \<and> gfs_net_map_get 43 m' = Some NULL"
proof -
  obtain ys where "map_ok sample_map [] ys" "ys \<noteq> []" using sample_map_ok by blast
  moreover have "map_abs sample_map [] = Map.empty" by (auto simp: map_abs_def)
  ultimately obtain m' xs' ys' where "gfs_net_map_add 42 7 sample_map = Some (GFS_OK, m')" "map_ok m' xs' ys'" "map_abs m' xs' = [42 \<mapsto> 7]"
    using map_add_abs [of sample_map "[]" ys 42 7] by auto
  then show ?thesis using map_get_refines [of m' xs' ys'] by auto
qed

text \<open>
  C19: as long as a node is free, \<open>gfs_net_map_remove\<close> succeeds, keeps the directory well formed and removes the
  id from the map, every other id leads to where it led before. The node of the id is not put back on
  the free list, which stays as it is; once the free list is empty nothing is removed.
\<close>

theorem map_remove_refines:
  assumes "map_ok m xs ys"
  shows "if ys = [] then gfs_net_map_remove k m = Some (GFS_ERR, m)
    else \<exists>m' xs'. gfs_net_map_remove k m = Some (GFS_OK, m') \<and> map_ok m' xs' ys \<and> map_abs m' xs' = (map_abs m xs)(k := None)"
proof (cases "ys = []")
  case True
  then show ?thesis using assms by (simp add: map_ok_def gfs_net_map_remove_def)
next
  case False
  then show ?thesis using map_remove_abs [OF assms False] by simp
qed

theorem map_remove_refines_witness:
  "\<exists>m1 m2 xs. gfs_net_map_add 42 7 sample_map = Some (GFS_OK, m1) \<and> gfs_net_map_remove 42 m1 = Some (GFS_OK, m2)
    \<and> map_abs m2 xs = Map.empty"
proof -
  obtain ys where ys: "map_ok sample_map [] ys" "length ys = 1024"
    using map_init_ok unfolding sample_map_def GFS_NET_DS_MAPS_def by blast
  moreover have "map_abs sample_map [] = Map.empty" by (auto simp: map_abs_def)
  ultimately obtain m1 xs1 ys1 where m1: "gfs_net_map_add 42 7 sample_map = Some (GFS_OK, m1)" "map_ok m1 xs1 ys1"
      "map_abs m1 xs1 = [42 \<mapsto> 7]" "length ys \<le> Suc (length ys1)"
    using map_add_abs [of sample_map "[]" ys 42 7] by fastforce
  then have "ys1 \<noteq> []" using ys(2) by auto
  then show ?thesis using map_remove_refines [OF m1(2), of 42] m1(1,3) by auto
qed

text \<open>
  C21: \<open>gfs_net_map_gettopn\<close> ends and returns the connections of the first data servers of the list, as many
  as asked for or all of them; when the last sort is at least five minutes old, the list is first sorted,
  stably, by the weight the comparison reads. The directory stays well formed and holds the same servers.
\<close>

theorem gettopn_first:
  assumes "map_ok m xs ys" and "0 < num"
  shows "\<exists>m' zs. gfs_net_map_gettopn raw now num m = Some (GFS_OK, map (m_data m) (take num zs), m') \<and> map_ok m' zs ys
    \<and> (if now - sort_time m \<ge> 300 then zs = sort_key (\<lambda>a. fst (raw a) + snd (raw a)) xs else zs = xs)
    \<and> (\<forall>k. gfs_net_map_get k m' = gfs_net_map_get k m)"
proof -
  define zs where "zs = (if now - sort_time m \<ge> 300 then sort_key (ds_weight raw) xs else xs)"
  obtain m' where m': "gfs_net_map_gettopn raw now num m = Some (GFS_OK, map (m_data m) (take num zs), m')"
      "map_ok m' zs ys" "m_tree m' = m_tree m" "m_data m' = m_data m"
    using gettopn_correct [OF assms, of now raw] by (auto simp: zs_def Let_def)
  have "ds_weight raw = (\<lambda>a. fst (raw a) + snd (raw a))" by (auto simp: ds_weight_def)
  moreover have "gfs_net_map_get k m' = gfs_net_map_get k m" for k unfolding gfs_net_map_get_def m'(3,4) ..
  ultimately show ?thesis using m'(1,2) by (intro exI [of _ m'] exI [of _ zs]) (simp add: zs_def)
qed

theorem gettopn_first_witness:
  "\<exists>m' m''. gfs_net_map_add 42 7 sample_map = Some (GFS_OK, m') \<and> gfs_net_map_gettopn (\<lambda>_. (0, 0)) 1000 3 m' = Some (GFS_OK, [7], m'')"
proof -
  obtain y ys where ok: "map_ok sample_map [] (y # ys)" using sample_map_ok by (metis list.exhaust)
  obtain m' where m': "gfs_net_map_add 42 7 sample_map = Some (GFS_OK, m')" "map_ok m' [y] ys" "m_data m' y = 7"
    using map_add_new [OF ok, of 42 7] by auto
  then show ?thesis using gettopn_first [OF m'(2), of 3 "\<lambda>_. (0, 0)" 1000] by (auto split: if_splits)
qed

end
