(* ===== verification/Mem_ledger.thy ===== *)
theory Mem_ledger
  imports Config
begin

text \<open>
  The contract of the memory pools (\<open>core/gfs_mem.c\<close>) as their clients see it: \<open>gfs_mem_malloc\<close>
  returns \<open>NULL\<close> for the size zero only (it extends the pool, or ends the process, before it fails),
  the blocks it returns are pairwise different, \<open>gfs_mem_free\<close> accepts \<open>NULL\<close> and the blocks that are
  allocated, and \<open>gfs_mem_pool_reset\<close> frees every block of the pool. The ledger records the live
  blocks with their sizes; freeing anything else is undefined. The boundary tags and the page lists
  behind this contract are not modelled.
\<close>

record mem_pool =
  mp_next :: addr
  mp_live :: "(addr \<times> u32) list"

definition pool_malloc :: "u32 \<Rightarrow> mem_pool \<Rightarrow> addr \<times> mem_pool" where
  "pool_malloc n p =
     (if n = 0 then (NULL, p)
      else (mp_next p, p\<lparr>mp_next := mp_next p + 1, mp_live := (mp_next p, n) # mp_live p\<rparr>))"

definition pool_free :: "addr \<Rightarrow> mem_pool \<Rightarrow> mem_pool option" where
  "pool_free a p =
     (if a = NULL then Some p
      else if a \<in> fst ` set (mp_live p) then Some (p\<lparr>mp_live := filter (\<lambda>(b, _). b \<noteq> a) (mp_live p)\<rparr>)
      else None)"

definition pool_reset :: "mem_pool \<Rightarrow> mem_pool" where
  "pool_reset p = p\<lparr>mp_live := []\<rparr>"

definition pool_ok :: "mem_pool \<Rightarrow> bool" where
  "pool_ok p \<longleftrightarrow> 0 < mp_next p \<and> (\<forall>a \<in> fst ` set (mp_live p). 0 < a \<and> a < mp_next p) \<and> distinct (map fst (mp_live p))"

lemma pool_malloc_ok: "pool_ok p \<Longrightarrow> pool_ok (snd (pool_malloc n p))"
  by (auto simp: pool_ok_def pool_malloc_def)

lemma pool_free_malloc:
  assumes "pool_ok p" and "n \<noteq> 0"
  shows "pool_free (fst (pool_malloc n p)) (snd (pool_malloc n p)) = Some (p\<lparr>mp_next := mp_next p + 1\<rparr>)"
proof -
  have "filter (\<lambda>(b, _). b \<noteq> mp_next p) (mp_live p) = mp_live p"
    using assms(1) by (intro filter_True) (auto simp: pool_ok_def)
  then show ?thesis using assms by (simp add: pool_malloc_def pool_free_def pool_ok_def)
qed

end
