(* ===== verification/Sql.thy ===== *)
theory Sql
  imports Mem_ledger
begin

text \<open>
  \<open>sql/gfs_dbpool.c\<close> and \<open>sql/gfs_sql.c\<close>: the pool of MySQL connections and the functions that call
  the stored procedures. The MySQL client library and the server behind it are a parameter of the
  model, the record \<open>mysql\<close> of the library functions the code calls, over a state of type \<^typ>\<open>'w\<close>.
  A query that does not fit the stack buffer it is printed into, a \<open>NULL\<close> column passed to
  \<open>atoi\<close>, the use of a return code that was not assigned and a fetch loop that never ends have the
  result \<^term>\<open>None\<close>.
\<close>

section \<open>The client library\<close>

text \<open>
  A statement result: the rows of \<open>mysql_store_result\<close> (\<^term>\<open>None\<close> when it returns \<open>NULL\<close>), the value
  of \<open>mysql_errno\<close> and of \<open>mysql_field_count\<close> while that result is the current one. A reply is what
  one \<open>mysql_query\<close> leads to: its success, the error number, the affected rows, the statement
  results in order and the value \<open>mysql_next_result\<close> has after the last of them.
\<close>

record my_result =
  rs_rows :: "string option list list option"
  rs_errno :: u32
  rs_fields :: nat

record my_reply =
  rp_failed :: bool
  rp_errno :: u32
  rp_affected :: u64
  rp_first :: my_result
  rp_more :: "my_result list"

record mysql_cfg =
  cfg_host :: string
  cfg_port :: u16
  cfg_db :: string
  cfg_user :: string
  cfg_pwd :: string

record 'w mysql =
  my_malloc :: "'w \<Rightarrow> bool \<times> 'w"
  my_init :: "'w \<Rightarrow> nat option \<times> 'w"
  my_real_connect :: "nat \<Rightarrow> mysql_cfg \<Rightarrow> 'w \<Rightarrow> bool \<times> 'w"
  my_query :: "nat \<Rightarrow> string \<Rightarrow> 'w \<Rightarrow> my_reply \<times> 'w"
  my_ping :: "nat \<Rightarrow> 'w \<Rightarrow> 'w"
  my_close :: "nat \<Rightarrow> 'w \<Rightarrow> 'w"

definition CR_SERVER_LOST :: u32 where "CR_SERVER_LOST = 2013"

section \<open>The connection pool\<close>

text \<open>A \<open>gfs_mysql_t\<close>; its \<open>next\<close> link is the order of the list in the pool.\<close>

record gfs_mysql =
  my_conn :: nat
  my_used :: int

record gfs_mysql_pool =
  pl_conn :: "gfs_mysql list"
  pl_conn_num :: int
  pl_used_num :: int
  pl_cfg :: mysql_cfg

record 'w sqlst =
  mysql_pool :: "gfs_mysql_pool option"
  cpy_pages :: int
  del0_pages :: int
  del1_pages :: int
  sq_world :: 'w

definition gfs_connect_to :: "'w mysql \<Rightarrow> mysql_cfg \<Rightarrow> 'w \<Rightarrow> gfs_mysql option \<times> 'w" where
  "gfs_connect_to db cfg w =
     (case my_init db w of
        (None, w) \<Rightarrow> (None, w)
      | (Some c, w) \<Rightarrow>
          (case my_real_connect db c cfg w of
             (False, w) \<Rightarrow> (None, w)
           | (True, w) \<Rightarrow> (Some \<lparr>my_conn = c, my_used = 0\<rparr>, snd (my_query db c ''SET NAMES utf8'' w))))"

text \<open>\<open>strcpy\<close> into an array of \<open>n\<close> bytes.\<close>

definition strcpy_fits :: "nat \<Rightarrow> string \<Rightarrow> bool" where
  "strcpy_fits n s \<longleftrightarrow> length s < n"

text \<open>The loop of \<open>gfs_mysql_pool_create\<close>; the boolean is whether it returned the pool.\<close>

partial_function (option) pool_create_loop ::
  "'w mysql \<Rightarrow> int \<Rightarrow> gfs_mysql_pool \<Rightarrow> 'w \<Rightarrow> (bool \<times> gfs_mysql_pool \<times> 'w) option" where
  [code]: "pool_create_loop db conn p w =
     (if pl_conn_num p = conn then Some (True, p, w)
      else let (ok, w) = my_malloc db w in
        if \<not> ok then Some (False, p, w)
        else let (c, w) = gfs_connect_to db (pl_cfg p) w in
          if c = None then Some (False, p, w)
          else pool_create_loop db conn
                 (p\<lparr>pl_conn := (the c)\<lparr>my_used := 0\<rparr> # pl_conn p, pl_conn_num := pl_conn_num p + 1\<rparr>) w)"

definition gfs_mysql_pool_create ::
  "'w mysql \<Rightarrow> int \<Rightarrow> mysql_cfg \<Rightarrow> 'w sqlst \<Rightarrow> (bool \<times> 'w sqlst) option" where
  "gfs_mysql_pool_create db conn cfg s =
     (case my_malloc db (sq_world s) of
        (False, w) \<Rightarrow> Some (False, s\<lparr>sq_world := w\<rparr>)
      | (True, w) \<Rightarrow>
          if strcpy_fits 32 (cfg_host cfg) \<and> strcpy_fits 16 (cfg_db cfg) \<and> strcpy_fits 16 (cfg_user cfg)
             \<and> strcpy_fits 16 (cfg_pwd cfg)
          then do {
            (ok, p, w) \<leftarrow> pool_create_loop db conn
                            \<lparr>pl_conn = [], pl_conn_num = 0, pl_used_num = 0, pl_cfg = cfg\<rparr> w;
            Some (ok, s\<lparr>mysql_pool := Some p, sq_world := w\<rparr>)
          }
          else None)"

fun pool_free_loop :: "'w mysql \<Rightarrow> gfs_mysql list \<Rightarrow> int \<Rightarrow> 'w \<Rightarrow> 'w" where
  "pool_free_loop db [] num w = w"
| "pool_free_loop db (c # cs) num w =
     (if num \<noteq> 0 then pool_free_loop db cs (num - 1) (my_close db (my_conn c) w) else w)"

text \<open>After \<open>gfs_mysql_pool_free\<close> the global pointer dangles: there is no pool any more.\<close>

definition gfs_mysql_pool_free :: "'w mysql \<Rightarrow> 'w sqlst \<Rightarrow> 'w sqlst option" where
  "gfs_mysql_pool_free db s = do {
     p \<leftarrow> mysql_pool s;
     Some (s\<lparr>mysql_pool := None, sq_world := pool_free_loop db (pl_conn p) (pl_conn_num p) (sq_world s)\<rparr>)
   }"

text \<open>The inner option is the returned pointer.\<close>

definition gfs_mysql_get :: "'w mysql \<Rightarrow> 'w sqlst \<Rightarrow> (gfs_mysql option \<times> 'w sqlst) option" where
  "gfs_mysql_get db s = do {
     p \<leftarrow> mysql_pool s;
     case pl_conn p of
       [] \<Rightarrow> Some (None, s)
     | c # cs \<Rightarrow>
         if pl_conn_num p \<noteq> 0 then
           Some (Some c, s\<lparr>mysql_pool := Some (p\<lparr>pl_conn := cs, pl_conn_num := pl_conn_num p - 1,
                                               pl_used_num := pl_used_num p + 1\<rparr>),
                           sq_world := my_ping db (my_conn c) (sq_world s)\<rparr>)
         else Some (None, s)
   }"

definition pool_push :: "gfs_mysql \<Rightarrow> gfs_mysql_pool \<Rightarrow> gfs_mysql_pool" where
  "pool_push c p = p\<lparr>pl_conn := c\<lparr>my_used := 0\<rparr> # pl_conn p, pl_conn_num := pl_conn_num p + 1,
                     pl_used_num := pl_used_num p - 1\<rparr>"

definition gfs_mysql_put :: "'w mysql \<Rightarrow> gfs_mysql \<Rightarrow> 'w sqlst \<Rightarrow> (int \<times> 'w sqlst) option" where
  "gfs_mysql_put db mysql s = do {
     p \<leftarrow> mysql_pool s;
     if my_used mysql = 1 then
       (case my_malloc db (sq_world s) of
          (False, w) \<Rightarrow> Some (-1, s\<lparr>sq_world := w\<rparr>)
        | (True, w) \<Rightarrow>
            (case gfs_connect_to db (pl_cfg p) w of
               (None, w) \<Rightarrow> Some (-1, s\<lparr>sq_world := w\<rparr>)
             | (Some c, w) \<Rightarrow> Some (0, s\<lparr>mysql_pool := Some (pool_push c p), sq_world := w\<rparr>)))
     else Some (0, s\<lparr>mysql_pool := Some (pool_push mysql p)\<rparr>)
   }"

definition gfs_mysql_pool_current_num :: "'w sqlst \<Rightarrow> int option" where
  "gfs_mysql_pool_current_num s = map_option pl_conn_num (mysql_pool s)"

definition gfs_mysql_init :: "'w mysql \<Rightarrow> int \<Rightarrow> mysql_cfg \<Rightarrow> 'w sqlst \<Rightarrow> (int \<times> 'w sqlst) option" where
  "gfs_mysql_init db conn cfg s = do {
     (ok, s) \<leftarrow> gfs_mysql_pool_create db conn cfg s;
     Some (if ok then SQL_OK else SQL_POOL_ERR, s)
   }"

definition gfs_mysql_free :: "'w mysql \<Rightarrow> 'w sqlst \<Rightarrow> (int \<times> 'w sqlst) option" where
  "gfs_mysql_free db s = do {
     s \<leftarrow> gfs_mysql_pool_free db s;
     Some (SQL_OK, s)
   }"

section \<open>Running a statement\<close>

definition sprintf_buf :: "nat \<Rightarrow> string \<Rightarrow> string option" where
  "sprintf_buf n s = (if length s < n then Some s else None)"

definition col :: "string option list \<Rightarrow> nat \<Rightarrow> string option" where
  "col row i = (if i < length row then row ! i else None)"

datatype sql_outcome = NoConnection | QueryFailed | Reply gfs_mysql my_reply

text \<open>
  What every \<open>gfs_mysql_*\<close> function begins with: take a connection, print the query into the buffer
  of \<open>cap\<close> bytes, run it, and on failure mark a lost connection and put it back.
\<close>

definition sql_call :: "'w mysql \<Rightarrow> nat \<Rightarrow> string \<Rightarrow> 'w sqlst \<Rightarrow> (sql_outcome \<times> 'w sqlst) option" where
  "sql_call db cap query s = do {
     (c, s) \<leftarrow> gfs_mysql_get db s;
     case c of
       None \<Rightarrow> Some (NoConnection, s)
     | Some c \<Rightarrow> do {
         query \<leftarrow> sprintf_buf cap query;
         let (rp, w) = my_query db (my_conn c) query (sq_world s);
         let s = s\<lparr>sq_world := w\<rparr>;
         if rp_failed rp then do {
           let c = (if rp_errno rp = CR_SERVER_LOST then c\<lparr>my_used := 1\<rparr> else c);
           (_, s) \<leftarrow> gfs_mysql_put db c s;
           Some (QueryFailed, s)
         }
         else Some (Reply c rp, s)
       }
   }"

text \<open>A function that only looks at the number of affected rows.\<close>

definition sql_update ::
  "'w mysql \<Rightarrow> nat \<Rightarrow> string \<Rightarrow> int \<Rightarrow> (u64 \<Rightarrow> int) \<Rightarrow> 'w sqlst \<Rightarrow> (int \<times> 'w sqlst) option" where
  "sql_update db cap query err rtn s = do {
     (r, s) \<leftarrow> sql_call db cap query s;
     case r of
       NoConnection \<Rightarrow> Some (SQL_POOL_ERR, s)
     | QueryFailed \<Rightarrow> Some (err, s)
     | Reply c rp \<Rightarrow> do {
         (_, s) \<leftarrow> gfs_mysql_put db c s;
         Some (rtn (rp_affected rp), s)
       }
   }"

section \<open>Updates\<close>

definition gfs_mysql_login ::
  "'w mysql \<Rightarrow> u32 \<Rightarrow> u64 \<Rightarrow> u64 \<Rightarrow> 'w sqlst \<Rightarrow> (int \<times> 'w sqlst) option" where
  "gfs_mysql_login db dsid dsize remain =
     sql_update db 64
       (''call ds_login('' @ dec_nat (unat dsid) @ '', '' @ dec_nat (unat dsize) @ '', ''
        @ dec_nat (unat remain) @ '')'')
       SQL_QUERY_ERR
       (\<lambda>rc. if rc = 0 then SQL_INSERT_EXISTS else if rc = - 1 then SQL_QUERY_ERR else SQL_OK)"

definition gfs_mysql_delfile :: "'w mysql \<Rightarrow> string \<Rightarrow> 'w sqlst \<Rightarrow> (int \<times> 'w sqlst) option" where
  "gfs_mysql_delfile db fhash =
     sql_update db 64 (''call delete_file('' @ [CHR 0x27] @ fhash @ [CHR 0x27] @ '')'') SQL_ARGS_ERR
       (\<lambda>rc. if rc = 0 then SQL_FILE_NOT_EXIST else SQL_OK)"

definition block_args :: "u64 \<Rightarrow> u32 \<Rightarrow> u32 \<Rightarrow> string" where
  "block_args fid bindex dsid =
     dec_nat (unat fid) @ '', '' @ dec_int (sint bindex) @ '', '' @ dec_nat (unat dsid) @ '')''"

definition gfs_mysql_delblock ::
  "'w mysql \<Rightarrow> u64 \<Rightarrow> u32 \<Rightarrow> u32 \<Rightarrow> 'w sqlst \<Rightarrow> (int \<times> 'w sqlst) option" where
  "gfs_mysql_delblock db fid bindex dsid =
     sql_update db 64 (''call delete_block('' @ block_args fid bindex dsid) SQL_ARGS_ERR (\<lambda>rc. SQL_OK)"

definition gfs_mysql_cpyblock ::
  "'w mysql \<Rightarrow> u64 \<Rightarrow> u32 \<Rightarrow> u32 \<Rightarrow> 'w sqlst \<Rightarrow> (int \<times> 'w sqlst) option" where
  "gfs_mysql_cpyblock db fid bindex dsid =
     sql_update db 64 (''call copy_block('' @ block_args fid bindex dsid) SQL_ARGS_ERR
       (\<lambda>rc. if rc = 0 then SQL_FILE_NOT_EXIST else SQL_OK)"

definition gfs_mysql_set_deling ::
  "'w mysql \<Rightarrow> u64 \<Rightarrow> u32 \<Rightarrow> u32 \<Rightarrow> 'w sqlst \<Rightarrow> (int \<times> 'w sqlst) option" where
  "gfs_mysql_set_deling db fid bindex dsid =
     sql_update db 64 (''call set_del_ing('' @ block_args fid bindex dsid) SQL_ARGS_ERR
       (\<lambda>rc. if rc = 0 then SQL_BLOCK_NOT_EXIST else SQL_OK)"

section \<open>Queries with one row\<close>

text \<open>
  The first row of the first result, read by \<open>f\<close>: the return code and what \<open>f\<close> made of the row.
  With no row and an error number the return code of the C functions is unassigned.
\<close>

definition one_row :: "(string option list \<Rightarrow> 'a option) \<Rightarrow> my_reply \<Rightarrow> (int \<times> 'a option) option" where
  "one_row f rp =
     (case rs_rows (rp_first rp) of
        None \<Rightarrow> Some (SQL_FETCH_ERR, None)
      | Some (row # _) \<Rightarrow> do { x \<leftarrow> f row; Some (SQL_OK, Some x) }
      | Some [] \<Rightarrow> if rs_errno (rp_first rp) = 0 then Some (SQL_EMPTY, None) else None)"

text \<open>The results are the return code, \<open>*status\<close> and \<open>*fid\<close>.\<close>

definition gfs_mysql_upload ::
  "'w mysql \<Rightarrow> string \<Rightarrow> u64 \<Rightarrow> u32 \<Rightarrow> u32 \<Rightarrow> u64 \<Rightarrow> 'w sqlst \<Rightarrow> ((int \<times> u32 \<times> u64) \<times> 'w sqlst) option" where
  "gfs_mysql_upload db fhash fsize bnum bindex fid s = do {
     (r, s) \<leftarrow> sql_call db 128
       (''call upload_file('' @ [CHR 0x27] @ fhash @ [CHR 0x27] @ '', '' @ dec_nat (unat fsize) @ '', ''
        @ dec_nat (unat bnum) @ '', '' @ dec_int (sint bindex) @ '')'') s;
     case r of
       NoConnection \<Rightarrow> Some ((SQL_POOL_ERR, - 1, fid), s)
     | QueryFailed \<Rightarrow> Some ((SQL_ARGS_ERR, - 1, fid), s)
     | Reply c rp \<Rightarrow> do {
         (rtn, out) \<leftarrow> one_row (\<lambda>row. do { a \<leftarrow> col row 0; b \<leftarrow> col row 1; Some (atoi a, atoll b) }) rp;
         (_, s) \<leftarrow> gfs_mysql_put db c s;
         Some ((rtn, case out of None \<Rightarrow> (- 1, fid) | Some x \<Rightarrow> x), s)
       }
   }"

text \<open>\<open>*fsize\<close> is assigned through an \<open>int\<close>.\<close>

definition gfs_mysql_getfsize ::
  "'w mysql \<Rightarrow> string \<Rightarrow> u64 \<Rightarrow> 'w sqlst \<Rightarrow> ((int \<times> u64) \<times> 'w sqlst) option" where
  "gfs_mysql_getfsize db fhash fsize s = do {
     (r, s) \<leftarrow> sql_call db 128 (''call get_fsize('' @ [CHR 0x27] @ fhash @ [CHR 0x27] @ '')'') s;
     case r of
       NoConnection \<Rightarrow> Some ((SQL_POOL_ERR, fsize), s)
     | QueryFailed \<Rightarrow> Some ((SQL_ARGS_ERR, fsize), s)
     | Reply c rp \<Rightarrow> do {
         (rtn, out) \<leftarrow> one_row (\<lambda>row. do { a \<leftarrow> col row 0; Some (scast (atoi a)) }) rp;
         (_, s) \<leftarrow> gfs_mysql_put db c s;
         Some ((rtn, case out of None \<Rightarrow> fsize | Some x \<Rightarrow> x), s)
       }
   }"

section \<open>The block lists\<close>

record gfs_sql_block =
  sb_bindex :: u32
  sb_dsid :: u32
  sb_fid :: u64

text \<open>
  The fetch loop of the two paged queries, from index \<open>i\<close>: three columns per row, into an array of
  \<open>cap\<close> elements.
\<close>

fun fetch_blocks :: "nat \<Rightarrow> string option list list \<Rightarrow> gfs_sql_block list option" where
  "fetch_blocks cap [] = Some []"
| "fetch_blocks cap (row # rows) =
     (case cap of
        0 \<Rightarrow> None
      | Suc cap \<Rightarrow> do {
          f \<leftarrow> col row 0;
          b \<leftarrow> col row 1;
          d \<leftarrow> col row 2;
          r \<leftarrow> fetch_blocks cap rows;
          Some (\<lparr>sb_bindex = atoi b, sb_dsid = atoi d, sb_fid = scast (atoi f)\<rparr> # r)
        })"

text \<open>
  The page counters are \<open>int\<close>s. \<open>opt\<close> is 0 or 1 at the only call sites, other values leave \<open>pages\<close>
  uninitialised. The blocks and \<open>*bnum\<close> (their number) are returned.
\<close>

definition gfs_mysql_get_delblock ::
  "'w mysql \<Rightarrow> nat \<Rightarrow> nat \<Rightarrow> u32 \<Rightarrow> 'w sqlst \<Rightarrow> ((int \<times> gfs_sql_block list) \<times> 'w sqlst) option" where
  "gfs_mysql_get_delblock db cap opt copies s = do {
     pages \<leftarrow> (if opt = 0 then Some (del0_pages s) else if opt = 1 then Some (del1_pages s) else None);
     (r, s) \<leftarrow> sql_call db 64
       (''call get_del_block('' @ dec_nat opt @ '', '' @ dec_int (sint copies) @ '', '' @ dec_int pages @ '')'') s;
     case r of
       NoConnection \<Rightarrow> Some ((SQL_POOL_ERR, []), s)
     | QueryFailed \<Rightarrow> Some ((SQL_ARGS_ERR, []), s)
     | Reply c rp \<Rightarrow>
         (case rs_rows (rp_first rp) of
            None \<Rightarrow> do {
              (_, s) \<leftarrow> gfs_mysql_put db c s;
              Some ((SQL_FETCH_ERR, []), s)
            }
          | Some rows \<Rightarrow> do {
              let pages = (if rows = [] then 0 else pages + 1);
              let s = (if opt = 0 then s\<lparr>del0_pages := pages\<rparr> else s\<lparr>del1_pages := pages\<rparr>);
              bs \<leftarrow> fetch_blocks cap rows;
              (_, s) \<leftarrow> gfs_mysql_put db c s;
              Some ((SQL_OK, bs), s)
            })
   }"

definition gfs_mysql_get_cpyblock ::
  "'w mysql \<Rightarrow> nat \<Rightarrow> u32 \<Rightarrow> 'w sqlst \<Rightarrow> ((int \<times> gfs_sql_block list) \<times> 'w sqlst) option" where
  "gfs_mysql_get_cpyblock db cap copies s = do {
     (r, s) \<leftarrow> sql_call db 64
       (''call get_cpy_block('' @ dec_int (sint copies) @ '', '' @ dec_int (cpy_pages s) @ '')'') s;
     case r of
       NoConnection \<Rightarrow> Some ((SQL_POOL_ERR, []), s)
     | QueryFailed \<Rightarrow> Some ((SQL_ARGS_ERR, []), s)
     | Reply c rp \<Rightarrow>
         (case rs_rows (rp_first rp) of
            None \<Rightarrow> do {
              (_, s) \<leftarrow> gfs_mysql_put db c s;
              Some ((SQL_FETCH_ERR, []), s)
            }
          | Some rows \<Rightarrow> do {
              let s = s\<lparr>cpy_pages := (if rows = [] then 0 else cpy_pages s + 1)\<rparr>;
              bs \<leftarrow> fetch_blocks cap rows;
              (_, s) \<leftarrow> gfs_mysql_put db c s;
              Some ((SQL_OK, bs), s)
            })
   }"

section \<open>The download query\<close>

text \<open>
  The local state of \<open>gfs_mysql_download\<close>: the number of result sets seen, the index \<open>i\<close> (which is
  not reset between result sets), the return code, \<open>*fid\<close>, \<open>*bnum\<close>, and \<open>*blist\<close> as the address of
  the allocated array with its elements (a \<^term>\<open>None\<close> element is not initialised).
\<close>

record dl_state =
  dl_index :: nat
  dl_i :: nat
  dl_rtn :: int
  dl_fid :: u64
  dl_bnum :: nat
  dl_blist :: addr
  dl_elems :: "(u32 \<times> u32) option list"

text \<open>
  \<open>while (i < num)\<close>: the rows still to fetch come in the second argument. When none is left the loop
  ends with \<open>SQL_EMPTY\<close>, or spins when the error number is set.
\<close>

fun download_rows :: "u32 \<Rightarrow> nat \<Rightarrow> string option list list \<Rightarrow> dl_state \<Rightarrow> dl_state option" where
  "download_rows errno num rows d =
     (if dl_i d < num then
        (case rows of
           [] \<Rightarrow> if errno = 0 then Some (d\<lparr>dl_rtn := SQL_EMPTY\<rparr>) else None
         | row # rows \<Rightarrow> do {
             b \<leftarrow> col row 0;
             ds \<leftarrow> col row 1;
             download_rows errno num rows
               (d\<lparr>dl_elems := (dl_elems d)[dl_i d := Some (atoi b, atoi ds)], dl_i := dl_i d + 1\<rparr>)
           })
      else Some d)"

text \<open>One round of the result set loop: the boolean is whether the loop goes on.\<close>

definition download_result ::
  "my_result \<Rightarrow> dl_state \<Rightarrow> mem_pool \<Rightarrow> (bool \<times> dl_state \<times> mem_pool) option" where
  "download_result r d pool =
     (case rs_rows r of
        None \<Rightarrow> Some (rs_fields r = 0, d, pool)
      | Some rows \<Rightarrow>
          if dl_index d < 1 then do {
            let d = d\<lparr>dl_index := dl_index d + 1\<rparr>;
            case rows of
              row # _ \<Rightarrow> do { f \<leftarrow> col row 0; Some (True, d\<lparr>dl_fid := atoll f, dl_rtn := SQL_OK\<rparr>, pool) }
            | [] \<Rightarrow> if rs_errno r = 0 then Some (False, d\<lparr>dl_rtn := SQL_EMPTY\<rparr>, pool) else Some (True, d, pool)
          }
          else do {
            let d = d\<lparr>dl_index := dl_index d + 1\<rparr>;
            let num = length rows;
            if num = 0 then Some (False, d, pool)
            else do {
              let (pdata, pool) = pool_malloc (of_nat num * 16) pool;
              if pdata = NULL then Some (False, d, pool)
              else do {
                d \<leftarrow> download_rows (rs_errno r) num rows
                      (d\<lparr>dl_bnum := num, dl_blist := pdata, dl_elems := replicate num None\<rparr>);
                Some (True, d, pool)
              }
            }
          })"

fun download_results ::
  "my_result \<Rightarrow> my_result list \<Rightarrow> dl_state \<Rightarrow> mem_pool \<Rightarrow> (dl_state \<times> mem_pool) option" where
  "download_results r rs d pool = do {
     (go, d, pool) \<leftarrow> download_result r d pool;
     case rs of
       [] \<Rightarrow> Some (d, pool)
     | r' # rs' \<Rightarrow> if go then download_results r' rs' d pool else Some (d, pool)
   }"

definition gfs_mysql_download ::
  "'w mysql \<Rightarrow> string \<Rightarrow> u32 \<Rightarrow> u64 \<Rightarrow> mem_pool \<Rightarrow> 'w sqlst \<Rightarrow> (dl_state \<times> mem_pool \<times> 'w sqlst) option" where
  "gfs_mysql_download db fhash bindex fid pool s = do {
     let d = \<lparr>dl_index = 0, dl_i = 0, dl_rtn = SQL_ERROR, dl_fid = fid, dl_bnum = 0, dl_blist = NULL,
              dl_elems = []\<rparr>;
     (r, s) \<leftarrow> sql_call db 64
       (''call download_file('' @ [CHR 0x27] @ fhash @ [CHR 0x27] @ '', '' @ dec_int (sint bindex) @ '')'') s;
     case r of
       NoConnection \<Rightarrow> Some (d\<lparr>dl_rtn := SQL_POOL_ERR\<rparr>, pool, s)
     | QueryFailed \<Rightarrow> Some (d\<lparr>dl_rtn := SQL_ARGS_ERR\<rparr>, pool, s)
     | Reply c rp \<Rightarrow> do {
         (d, pool) \<leftarrow> download_results (rp_first rp) (rp_more rp) d pool;
         (_, s) \<leftarrow> gfs_mysql_put db c s;
         Some (d, pool, s)
       }
   }"

end
