(* ===== verification/Timer.thy ===== *)
theory Timer
  imports Mem_ledger Rbtree
begin

text \<open>
  \<open>event/gfs_timer.c\<close>: timers in a red-black tree ordered by expiry time, and by address where two
  timers expire at the same time. The tree node is the first member of a timer, so that a timer and
  its node have the same address. A handler is an element of a type of function names; what calling it
  does to the program's state is an argument of \<open>gfs_timer_loop_run\<close>.
\<close>

record 'h timers =
  t_tree :: rbt
  t_secs :: "addr \<Rightarrow> int"
  t_times :: "addr \<Rightarrow> int"
  t_now :: "addr \<Rightarrow> u32"
  t_handle :: "addr \<Rightarrow> 'h option"
  t_param :: "addr \<Rightarrow> addr"

definition timer_sentinel :: addr where "timer_sentinel = 1"

section \<open>The order of the tree\<close>

partial_function (option) gfs_rbtree_insert_timer_value :: "addr \<Rightarrow> addr \<Rightarrow> rbt \<Rightarrow> rbt option" where
  [code]: "gfs_rbtree_insert_timer_value temp node t =
     (if key t node = key t temp \<and> node = temp then Some t
      else let l = (key t node < key t temp \<or> key t node = key t temp \<and> node < temp);
               p = (if l then lft t temp else rgt t temp)
           in if p = rb_sentinel t then Some (attach l temp node t)
              else gfs_rbtree_insert_timer_value p node t)"

partial_function (option) lookup_timer_loop :: "rbt \<Rightarrow> addr \<Rightarrow> addr \<Rightarrow> int option" where
  [code]: "lookup_timer_loop t timer tmpnode =
     (if tmpnode = rb_sentinel t then Some GFS_EVENT_NOTIMER_ERR
      else if key t timer < key t tmpnode then lookup_timer_loop t timer (lft t tmpnode)
      else if key t timer > key t tmpnode then lookup_timer_loop t timer (rgt t tmpnode)
      else if timer < tmpnode then lookup_timer_loop t timer (lft t tmpnode)
      else if timer > tmpnode then lookup_timer_loop t timer (rgt t tmpnode)
      else Some GFS_OK)"

definition gfs_rbtree_lookup_timer_value :: "rbt \<Rightarrow> addr \<Rightarrow> int option" where
  "gfs_rbtree_lookup_timer_value t timer = lookup_timer_loop t timer (rb_root t)"

section \<open>Operations\<close>

definition gfs_timer_loop_create :: "'h timers \<Rightarrow> 'h timers" where
  "gfs_timer_loop_create ts = ts\<lparr>t_tree := gfs_rbtree_init timer_sentinel (t_tree ts)\<rparr>"

text \<open>The test of \<open>gfs_timer_loop_destory\<close> is the wrong way round: a loop is never freed.\<close>

definition gfs_timer_loop_destory :: "addr \<Rightarrow> mem_pool \<Rightarrow> mem_pool option" where
  "gfs_timer_loop_destory loop pool = (if loop = NULL then pool_free loop pool else Some pool)"

definition zero_node :: "addr \<Rightarrow> rbt \<Rightarrow> rbt" where
  "zero_node a t = upd_node a (\<lambda>_. \<lparr>nd_key = 0, nd_left = NULL, nd_right = NULL, nd_parent = NULL, nd_red = False\<rparr>) t"

definition gfs_timer_set :: "addr \<Rightarrow> int \<Rightarrow> int \<Rightarrow> 'h \<Rightarrow> addr \<Rightarrow> u64 \<Rightarrow> 'h timers \<Rightarrow> 'h timers" where
  "gfs_timer_set timer msecs runs handle param mstime ts =
     (if timer = NULL \<or> runs = 0 \<or> msecs < 10 then ts
      else let secs = msecs div 10; now = ucast mstime in
        ts\<lparr>t_secs := (t_secs ts)(timer := secs),
           t_times := (t_times ts)(timer := runs),
           t_handle := (t_handle ts)(timer := Some handle),
           t_param := (t_param ts)(timer := param),
           t_now := (t_now ts)(timer := now),
           t_tree := set_key timer (now + of_int secs) (zero_node timer (t_tree ts))\<rparr>)"

definition gfs_timer_add :: "addr \<Rightarrow> 'h timers \<Rightarrow> (int \<times> 'h timers) option" where
  "gfs_timer_add timer ts =
     (if timer = NULL \<or> t_times ts timer = 0 then Some (GFS_PARAM_FUN_ERR, ts)
      else do {
        r \<leftarrow> gfs_rbtree_lookup_timer_value (t_tree ts) timer;
        if r = GFS_EVENT_NOTIMER_ERR then do {
          t \<leftarrow> gfs_rbtree_insert gfs_rbtree_insert_timer_value timer (t_tree ts);
          Some (GFS_OK, ts\<lparr>t_tree := t\<rparr>)
        }
        else Some (GFS_OK, ts)
      })"

definition gfs_timer_del :: "addr \<Rightarrow> 'h timers \<Rightarrow> 'h timers option" where
  "gfs_timer_del timer ts =
     (if timer = NULL then Some ts
      else do {
        r \<leftarrow> gfs_rbtree_lookup_timer_value (t_tree ts) timer;
        t \<leftarrow> (if r = GFS_OK then gfs_rbtree_delete timer (t_tree ts) else Some (t_tree ts));
        Some (ts\<lparr>t_tree := t, t_times := (t_times ts)(timer := 0)\<rparr>)
      })"

text \<open>
  \<open>gfs_timer_loop_run\<close>. The state is that of the whole program, of which \<open>get\<close> and \<open>put\<close> are the
  timers; \<open>call\<close> is the call of a handler with its parameter. A handler that was never set is a null
  function pointer. An expired timer with no runs left makes the loop spin.
\<close>

partial_function (option) gfs_timer_loop_run ::
  "('s \<Rightarrow> 'h timers) \<Rightarrow> ('h timers \<Rightarrow> 's \<Rightarrow> 's) \<Rightarrow> ('h \<Rightarrow> addr \<Rightarrow> 's \<Rightarrow> 's option) \<Rightarrow> u32 \<Rightarrow> 's \<Rightarrow> 's option" where
  [code]: "gfs_timer_loop_run get put call now s =
     (if rb_root (t_tree (get s)) = rb_sentinel (t_tree (get s)) then Some s
      else do {
        timer \<leftarrow> gfs_rbtree_min (t_tree (get s)) (rb_root (t_tree (get s)));
        if now \<ge> key (t_tree (get s)) timer then
          if t_times (get s) timer = 0 then gfs_timer_loop_run get put call now s
          else do {
            h \<leftarrow> t_handle (get s) timer;
            s \<leftarrow> call h (t_param (get s) timer) s;
            t \<leftarrow> gfs_rbtree_delete timer (t_tree (get s));
            let s = put ((get s)\<lparr>t_tree := t\<rparr>) s;
            if t_times (get s) timer = 1 then gfs_timer_loop_run get put call now s
            else do {
              let ts = get s;
              let ts = ts\<lparr>t_times := (t_times ts)(timer := (if t_times ts timer > 0 then t_times ts timer - 1
                                                             else t_times ts timer)),
                          t_now := (t_now ts)(timer := now),
                          t_tree := set_key timer (now + of_int (t_secs ts timer)) (t_tree ts)\<rparr>;
              t \<leftarrow> gfs_rbtree_insert gfs_rbtree_insert_timer_value timer (t_tree ts);
              gfs_timer_loop_run get put call now (put (ts\<lparr>t_tree := t\<rparr>) s)
            }
          }
        else Some s
      })"

end
