(* ===== verification/Server.thy ===== *)
theory Server
  imports Net_buf Net_map Sql Timer
begin

text \<open>
  The state of the name service and the layer next to the operating system: the connections and their
  pool (\<open>net/gfs_net.c\<close>), the registration of events (\<open>event/gfs_event.c\<close>) and the socket loops
  (\<open>net/gfs_net_tcp.c\<close>). The kernel and the clock are parameters, the record \<open>env\<close> of the calls the
  code makes, over the same state \<^typ>\<open>'w\<close> as the MySQL library.

  A connection, its event and its timer are named by one address. \<open>free_list\<close>, \<open>used_list\<close> and
  \<open>delay\<close> are the queue heads, \<open>busi_timer\<close> is the static timer of \<open>gfs_busi_init\<close>.
\<close>

section \<open>The environment\<close>

datatype errno = EINTR | EAGAIN | ECONNABORTED | ECONNRESET | ECONNREFUSED | EPIPE | EBADF | EFAULT | EINVAL | EOTHER

datatype recv_result = RecvData "byte list" | RecvErr errno
datatype send_result = Sent nat | SendErr errno
datatype accept_result = Accepted int u32 u16 | AcceptErr errno
datatype wait_result = Ready "(addr \<times> u32) list" | WaitErr errno
datatype epoll_op = EPOLL_CTL_ADD | EPOLL_CTL_MOD | EPOLL_CTL_DEL

text \<open>
  \<open>os_junk\<close> gives the bytes of a freshly allocated block, \<open>os_raw\<close> the words \<open>gfs_net_ds_cmp\<close> reads
  behind a map node.
\<close>

record 'w env =
  db :: "'w mysql"
  os_recv :: "int \<Rightarrow> nat \<Rightarrow> 'w \<Rightarrow> recv_result \<times> 'w"
  os_send :: "int \<Rightarrow> byte list \<Rightarrow> 'w \<Rightarrow> send_result \<times> 'w"
  os_accept :: "int \<Rightarrow> 'w \<Rightarrow> accept_result \<times> 'w"
  os_epoll_ctl :: "epoll_op \<Rightarrow> int \<Rightarrow> u32 \<Rightarrow> 'w \<Rightarrow> bool \<times> 'w"
  os_epoll_wait :: "'w \<Rightarrow> wait_result \<times> 'w"
  os_getfl :: "int \<Rightarrow> 'w \<Rightarrow> u32 option \<times> 'w"
  os_setfl :: "int \<Rightarrow> u32 \<Rightarrow> 'w \<Rightarrow> bool \<times> 'w"
  os_reuse :: "int \<Rightarrow> 'w \<Rightarrow> bool \<times> 'w"
  os_close :: "int \<Rightarrow> 'w \<Rightarrow> 'w"
  os_mstime :: "'w \<Rightarrow> u64"
  os_time :: "'w \<Rightarrow> int"
  os_junk :: "'w \<Rightarrow> nat \<Rightarrow> byte"
  os_raw :: "'w \<Rightarrow> addr \<Rightarrow> u32 \<times> u32"

section \<open>State\<close>

record gfs_net_data =
  u_ctype :: u32
  u_dsid :: u32
  u_resize :: u64
  u_dsize :: u64
  u_cfft :: u32
  u_weight :: u32
  u_port :: u32

text \<open>The fields of \<open>gfs_event_t\<close>; \<open>ev_loop\<close> is whether \<open>loop\<close> is set. \<open>pfd\<close> and \<open>data\<close> always refer to the owner.\<close>

record gfs_event =
  ev_flag :: u32
  ev_ready :: u32
  ev_isgfs :: bool
  ev_loop :: bool

text \<open>\<open>n_handle\<close> is whether \<open>c->handle\<close> is set, to \<open>gfs_handle_tcp_parse\<close>.\<close>

record gfs_net =
  n_fd :: int
  n_ev :: gfs_event
  n_sin_addr :: u32
  n_sin_port :: u16
  n_user :: gfs_net_data
  n_t_start :: u64
  n_t_end :: u64
  n_pool :: mem_pool
  n_rbuf :: gfs_net_buf
  n_sbuf :: gfs_net_buf
  n_handle :: bool

datatype timer_fn = gfs_net_timer | gfs_busi_notice

record 'w ns =
  g_copies :: u32
  g_block_size :: u32
  g_max_num :: int
  g_client_num :: int
  g_ser_fd :: int
  g_ser_ev :: gfs_event
  nets :: "addr \<Rightarrow> gfs_net"
  n_links :: qstore
  net_num :: u32
  free_num :: u32
  used_num :: u32
  d_links :: qstore
  tloop :: "timer_fn timers"
  dsmap :: net_map
  sql :: "'w sqlst"

definition free_list :: addr where "free_list = 1"
definition used_list :: addr where "used_list = 2"
definition delay :: addr where "delay = 3"
definition busi_timer :: addr where "busi_timer = 2"
definition ser_ev :: addr where "ser_ev = 4"

text \<open>The address of the connection that \<open>gfs_net_pool_create\<close> makes in round \<open>i\<close>.\<close>

definition net_addr :: "nat \<Rightarrow> addr" where "net_addr i = i + 10"

definition upd_net :: "addr \<Rightarrow> (gfs_net \<Rightarrow> gfs_net) \<Rightarrow> 'w ns \<Rightarrow> 'w ns" where
  "upd_net c f s = s\<lparr>nets := (nets s)(c := f (nets s c))\<rparr>"

abbreviation world :: "'w ns \<Rightarrow> 'w" where "world s \<equiv> sq_world (sql s)"

definition set_world :: "'w \<Rightarrow> 'w ns \<Rightarrow> 'w ns" where
  "set_world w s = s\<lparr>sql := (sql s)\<lparr>sq_world := w\<rparr>\<rparr>"

section \<open>Events\<close>

definition GFS_EVENT_READ :: u32 where "GFS_EVENT_READ = 1"
definition GFS_EVENT_WRITE :: u32 where "GFS_EVENT_WRITE = 2"
definition GFS_EVENT_ET :: u32 where "GFS_EVENT_ET = 4"
definition GFS_NET_READY :: u32 where "GFS_NET_READY = 8"
definition EPOLLIN :: u32 where "EPOLLIN = 0x001"
definition EPOLLOUT :: u32 where "EPOLLOUT = 0x004"
definition EPOLLERR :: u32 where "EPOLLERR = 0x008"
definition EPOLLHUP :: u32 where "EPOLLHUP = 0x010"
definition EPOLLRDHUP :: u32 where "EPOLLRDHUP = 0x2000"
definition EPOLLET :: u32 where "EPOLLET = 0x80000000"
definition GFS_EPOLL_ERR :: int where "GFS_EPOLL_ERR = 13"
definition GFS_NFD_ERR :: int where "GFS_NFD_ERR = 12"

definition epoll_events :: "u32 \<Rightarrow> u32" where
  "epoll_events flag =
     (let e = 0;
          e = (if flag AND GFS_EVENT_READ \<noteq> 0 then e OR EPOLLIN else e);
          e = (if flag AND GFS_EVENT_WRITE \<noteq> 0 then e OR EPOLLOUT else e);
          e = (if flag AND GFS_EVENT_ET \<noteq> 0 then e OR EPOLLET else e)
      in e)"

text \<open>\<open>gfs_event_add\<close> for the event of connection \<open>c\<close>; without a loop the code dereferences \<open>NULL\<close>.\<close>

definition gfs_event_add :: "'w env \<Rightarrow> addr \<Rightarrow> u32 \<Rightarrow> 'w ns \<Rightarrow> (int \<times> 'w ns) option" where
  "gfs_event_add E c flag s =
     (let ev = n_ev (nets s c);
          op = (if ev_flag ev = 0 then EPOLL_CTL_ADD else EPOLL_CTL_MOD);
          events = epoll_events flag;
          s = upd_net c (\<lambda>n. n\<lparr>n_ev := (n_ev n)\<lparr>ev_flag := events\<rparr>\<rparr>) s
      in if \<not> ev_loop ev then None
         else let (ok, w) = os_epoll_ctl E op (n_fd (nets s c)) events (world s)
              in Some (if ok then GFS_OK else GFS_EPOLL_ERR, set_world w s))"

definition gfs_event_del :: "'w env \<Rightarrow> addr \<Rightarrow> 'w ns \<Rightarrow> (int \<times> 'w ns) option" where
  "gfs_event_del E c s =
     (if \<not> ev_loop (n_ev (nets s c)) then None
      else let (ok, w) = os_epoll_ctl E EPOLL_CTL_DEL (n_fd (nets s c)) 0 (world s)
           in Some (if ok then GFS_OK else GFS_EPOLL_ERR, set_world w s))"

section \<open>The pool of connections\<close>

definition zero_event :: gfs_event where
  "zero_event = \<lparr>ev_flag = 0, ev_ready = 0, ev_isgfs = False, ev_loop = False\<rparr>"

definition zero_user :: gfs_net_data where
  "zero_user = \<lparr>u_ctype = 0, u_dsid = 0, u_resize = 0, u_dsize = 0, u_cfft = 0, u_weight = 0, u_port = 0\<rparr>"

text \<open>
  One round of the loop of \<open>gfs_net_pool_create\<close>. The structure is zeroed, it gets a memory pool and
  two buffers; the positions of the buffers are not assigned, so they keep what the memory has.
\<close>

definition net_create :: "gfs_net \<Rightarrow> gfs_net" where
  "net_create n =
     \<lparr>n_fd = -1, n_ev = zero_event, n_sin_addr = 0, n_sin_port = 0, n_user = zero_user, n_t_start = 0,
      n_t_end = 0, n_pool = \<lparr>mp_next = 1, mp_live = []\<rparr>,
      n_rbuf = (n_rbuf n)\<lparr>nb_len := GFS_NET_BUFFER_SIZE\<rparr>,
      n_sbuf = (n_sbuf n)\<lparr>nb_len := GFS_NET_BUFFER_SIZE\<rparr>, n_handle = False\<rparr>"

fun net_pool_loop :: "nat \<Rightarrow> nat \<Rightarrow> 'w ns \<Rightarrow> 'w ns" where
  "net_pool_loop i 0 s = s"
| "net_pool_loop i (Suc k) s =
     net_pool_loop (i + 1) k
       ((upd_net (net_addr i) net_create s)
          \<lparr>n_links := gfs_queue_insert_tail free_list (net_addr i) (n_links s)\<rparr>)"

definition gfs_net_pool_create :: "u32 \<Rightarrow> 'w ns \<Rightarrow> 'w ns" where
  "gfs_net_pool_create num s =
     net_pool_loop 0 (unat num)
       (s\<lparr>net_num := num, used_num := 0, free_num := num,
          n_links := gfs_queue_init used_list (gfs_queue_init free_list (n_links s))\<rparr>)"

text \<open>The result is the address of the connection, or \<open>NULL\<close>.\<close>

definition gfs_net_node_get :: "'w env \<Rightarrow> int \<Rightarrow> 'w ns \<Rightarrow> (addr \<times> 'w ns) option" where
  "gfs_net_node_get E fd s =
     (if gfs_queue_empty (n_links s) free_list then Some (NULL, s)
      else do {
        let c = q_next (n_links s) free_list;
        let s = s\<lparr>n_links := gfs_queue_insert_head used_list c (gfs_queue_remove c (n_links s)),
                  used_num := used_num s + 1, free_num := free_num s - 1\<rparr>;
        let t = os_mstime E (world s);
        let s = upd_net c (\<lambda>n. n\<lparr>n_fd := fd, n_t_start := t, n_t_end := t + GFS_CONN_TIMEOUT_MS,
                                 n_ev := zero_event\<lparr>ev_ready := GFS_NET_READY\<rparr>, n_user := zero_user\<rparr>) s;
        let ts = gfs_timer_set c 10000 (-1) gfs_net_timer c (os_mstime E (world s)) (tloop s);
        (_, ts) \<leftarrow> gfs_timer_add c ts;
        Some (c, s\<lparr>tloop := ts\<rparr>)
      })"

definition buf_reset :: "gfs_net_buf \<Rightarrow> gfs_net_buf" where
  "buf_reset b = b\<lparr>nb_hd := 0, nb_pos := 0\<rparr>"

definition gfs_net_close :: "'w env \<Rightarrow> addr \<Rightarrow> 'w ns \<Rightarrow> (int \<times> 'w ns) option" where
  "gfs_net_close E c s =
     (if c = NULL then Some (GFS_PARAM_FUN_ERR, s)
      else do {
        (_, s) \<leftarrow> gfs_event_del E c s;
        let s = set_world (os_close E (n_fd (nets s c)) (world s)) s;
        let s = upd_net c (\<lambda>n. n\<lparr>n_sin_addr := 0, n_sin_port := 0, n_rbuf := buf_reset (n_rbuf n),
                                 n_sbuf := buf_reset (n_sbuf n), n_pool := pool_reset (n_pool n),
                                 n_fd := -1\<rparr>) s;
        ts \<leftarrow> gfs_timer_del c (tloop s);
        let s = s\<lparr>tloop := ts,
                  n_links := gfs_queue_insert_head free_list c (gfs_queue_remove c (n_links s))\<rparr>;
        s \<leftarrow> (if u_ctype (n_user (nets s c)) = GFS_CLIENT_TYPE_DS
             then do {
               (_, m) \<leftarrow> gfs_net_map_remove (u_dsid (n_user (nets s c))) (dsmap s);
               Some (s\<lparr>dsmap := m\<rparr>)
             }
             else Some s);
        Some (GFS_OK, s\<lparr>g_client_num := g_client_num s - 1\<rparr>)
      })"

definition gfs_net_timer_handle :: "'w env \<Rightarrow> addr \<Rightarrow> 'w ns \<Rightarrow> (int \<times> 'w ns) option" where
  "gfs_net_timer_handle E c s =
     (if os_mstime E (world s) \<ge> n_t_end (nets s c)
      then do {
        (_, s) \<leftarrow> gfs_net_close E c s;
        Some (GFS_OK, s)
      }
      else Some (GFS_OK, s))"

definition O_NONBLOCK :: u32 where "O_NONBLOCK = 0x800"

definition gfs_net_fd_noblock :: "'w env \<Rightarrow> int \<Rightarrow> 'w ns \<Rightarrow> int \<times> 'w ns" where
  "gfs_net_fd_noblock E fd s =
     (case os_getfl E fd (world s) of
        (None, w) \<Rightarrow> (GFS_NFD_ERR, set_world w s)
      | (Some flags, w) \<Rightarrow>
          (case os_setfl E fd (flags OR O_NONBLOCK) w of
             (ok, w) \<Rightarrow> (if ok then GFS_OK else GFS_NFD_ERR, set_world w s)))"

definition gfs_net_fd_reuse :: "'w env \<Rightarrow> int \<Rightarrow> 'w ns \<Rightarrow> int \<times> 'w ns" where
  "gfs_net_fd_reuse E fd s =
     (case os_reuse E fd (world s) of (ok, w) \<Rightarrow> (if ok then GFS_OK else GFS_NFD_ERR, set_world w s))"

section \<open>Receiving and sending\<close>

definition set_t_end :: "'w env \<Rightarrow> addr \<Rightarrow> 'w ns \<Rightarrow> 'w ns" where
  "set_t_end E c s = upd_net c (\<lambda>n. n\<lparr>n_t_end := os_mstime E (world s) + GFS_CONN_TIMEOUT_MS\<rparr>) s"

definition recv_into :: "byte list \<Rightarrow> gfs_net_buf \<Rightarrow> gfs_net_buf" where
  "recv_into bs b = b\<lparr>nb_data := take (nb_pos b) (nb_data b) @ bs @ drop (nb_pos b + length bs) (nb_data b),
                      nb_pos := nb_pos b + length bs\<rparr>"

text \<open>\<open>remain\<close> is \<open>len - pos\<close> throughout the loop, and negative values end it.\<close>

partial_function (option) gfs_net_tcp_recv :: "'w env \<Rightarrow> addr \<Rightarrow> 'w ns \<Rightarrow> (int \<times> 'w ns) option" where
  [code]: "gfs_net_tcp_recv E c s =
     (if nb_pos (n_rbuf (nets s c)) < nb_len (n_rbuf (nets s c)) then
        let (r, w) = os_recv E (n_fd (nets s c)) (nb_len (n_rbuf (nets s c)) - nb_pos (n_rbuf (nets s c))) (world s);
            s = set_world w s
        in case r of
             RecvData bs \<Rightarrow>
               if bs = [] then Some (GFS_NET_CLOSE, s)
               else gfs_net_tcp_recv E c (upd_net c (n_rbuf_update (recv_into bs)) s)
           | RecvErr e \<Rightarrow>
               if e = EINTR then gfs_net_tcp_recv E c s
               else if e = EAGAIN then Some (GFS_NET_AGAIN, set_t_end E c s)
               else Some (GFS_NET_CLOSE, s)
      else Some (GFS_NET_OUTOF_MEMORY, set_t_end E c s))"

partial_function (option) gfs_net_tcp_send :: "'w env \<Rightarrow> addr \<Rightarrow> 'w ns \<Rightarrow> (int \<times> 'w ns) option" where
  [code]: "gfs_net_tcp_send E c s =
     (if nb_hd (n_sbuf (nets s c)) < nb_pos (n_sbuf (nets s c)) then do {
        bs \<leftarrow> ldbytes (nb_pos (n_sbuf (nets s c)) - nb_hd (n_sbuf (nets s c)))
               (nb_data (n_sbuf (nets s c))) (nb_hd (n_sbuf (nets s c)));
        let (r, w) = os_send E (n_fd (nets s c)) bs (world s);
        let s = set_world w s;
        case r of
          Sent k \<Rightarrow> gfs_net_tcp_send E c (upd_net c (n_sbuf_update (\<lambda>b. b\<lparr>nb_hd := nb_hd b + k\<rparr>)) s)
        | SendErr e \<Rightarrow>
            if e = EINTR then gfs_net_tcp_send E c s
            else Some (if e = EAGAIN then GFS_NET_AGAIN else GFS_NET_CLOSE, s)
      }
      else Some (GFS_OK, s))"

end
