(* ===== verification/Tools.thy ===== *)
theory Tools
  imports Config
begin

text \<open>
  \<open>core/gfs_tools.c\<close> of the name service: conversion between bytes and hexadecimal digits, the
  decoding of a percent-encoded URL and the extraction of a value from a \<open>key=value\<close> string.

  A C string is a \<^typ>\<open>string\<close> without its terminating zero. The conversions index the table
  \<open>hex_num\<close> with the character code minus 48, the character being a signed \<open>char\<close>; an index outside
  the table is undefined.
\<close>

section \<open>Hexadecimal digits\<close>

definition hex_num :: "nat list" where
  "hex_num =
     [0, 1, 2, 3, 4, 5, 6, 7, 8,
      9, 0, 0, 0, 0, 0, 0, 0,
      10, 11, 12, 13, 14, 15, 0, 0,
      0, 0, 0, 0, 0, 0, 0, 0,
      0, 0, 0, 0, 0, 0, 0, 0,
      0, 0, 0, 0, 0, 0, 0, 0,
      10, 11, 12, 13, 14, 15]"

definition schar :: "char \<Rightarrow> int" where
  "schar c = (if char_code c < 128 then int (char_code c) else int (char_code c) - 256)"

definition hex_num_at :: "char \<Rightarrow> nat option" where
  "hex_num_at c =
     (let i = schar c - 48
      in if 0 \<le> i \<and> i < int (length hex_num) then Some (hex_num ! nat i) else None)"

definition nth_opt :: "'a list \<Rightarrow> nat \<Rightarrow> 'a option" where
  "nth_opt xs i = (if i < length xs then Some (xs ! i) else None)"

text \<open>One iteration of the loop of \<open>gfs_strtohex\<close>: the byte stored in \<open>hex[i]\<close>.\<close>

definition strtohex_at :: "string \<Rightarrow> nat \<Rightarrow> byte option" where
  "strtohex_at str i = do {
     hf \<leftarrow> nth_opt str (2 * i);
     hs \<leftarrow> nth_opt str (2 * i + 1);
     hf \<leftarrow> hex_num_at hf;
     hs \<leftarrow> hex_num_at hs;
     Some (of_nat (hf * 16 + hs))
   }"

definition gfs_strtohex :: "string \<Rightarrow> nat \<Rightarrow> (nat \<times> byte list) option" where
  "gfs_strtohex str slen = do {
     let half = slen div 2;
     hex \<leftarrow> those (map (strtohex_at str) [0..<half]);
     Some (half, hex)
   }"

definition hex_str :: "string" where
  "hex_str = ''0123456789abcdef''"

definition hextostr_at :: "byte \<Rightarrow> string" where
  "hextostr_at b = [hex_str ! (unat b div 16), hex_str ! (unat b mod 16)]"

definition gfs_hextostr :: "byte list \<Rightarrow> nat \<Rightarrow> (nat \<times> string) option" where
  "gfs_hextostr hex hlen =
     (if hlen \<le> length hex then Some (2 * hlen, concat (map hextostr_at (take hlen hex))) else None)"

section \<open>URL decoding\<close>

fun url_loop :: "string \<Rightarrow> string option" where
  "url_loop [] = Some []"
| "url_loop (c # r) =
     (if c = CHR ''%'' then
        (case r of
           h # h' # r' \<Rightarrow> do {
             hf \<leftarrow> hex_num_at h;
             hs \<leftarrow> hex_num_at h';
             t \<leftarrow> url_loop r';
             Some (char_of (hf * 16 + hs) # t)
           }
         | _ \<Rightarrow> None)
      else do {
        t \<leftarrow> url_loop r;
        Some (c # t)
      })"

text \<open>A missing argument is a null pointer. The second component is the string left in \<open>url\<close>.\<close>

definition gfs_url_parse :: "string option \<Rightarrow> bool \<Rightarrow> (int \<times> string) option" where
  "gfs_url_parse str url_given =
     (case str of
        None \<Rightarrow> Some (GFS_PARAM_FUN_ERR, [])
      | Some s \<Rightarrow>
          if \<not> url_given then Some (GFS_PARAM_FUN_ERR, [])
          else do {
            url \<leftarrow> url_loop s;
            Some (GFS_OK, url)
          })"

section \<open>Values of a key in a string\<close>

fun strstr :: "string \<Rightarrow> string \<Rightarrow> string option" where
  "strstr s t =
     (if take (length t) s = t then Some s
      else (case s of [] \<Rightarrow> None | _ # r \<Rightarrow> strstr r t))"

declare strstr.simps [simp del]

definition strpbrk :: "string \<Rightarrow> string \<Rightarrow> nat option" where
  "strpbrk s accept =
     (let n = length (takeWhile (\<lambda>c. c \<notin> set accept) s) in if n < length s then Some n else None)"

text \<open>
  \<open>tmp\<close> has 32 bytes, \<open>value\<close> has \<open>vlen\<close>; writing past either is undefined. The final \<open>else\<close> of the
  source cannot be reached because \<open>p\<close> is not null there.
\<close>

definition gfs_string_value :: "string \<Rightarrow> string \<Rightarrow> nat \<Rightarrow> string \<Rightarrow> (int \<times> string) option" where
  "gfs_string_value str key vlen split =
     (let tmp = key @ ''='' in
      if 32 \<le> length tmp then None
      else case strstr str tmp of
          None \<Rightarrow> Some (GFS_ERR, [])
        | Some p0 \<Rightarrow>
            let p = drop (length tmp) p0 in
            (case strpbrk p split of
               None \<Rightarrow> if vlen \<le> length p then None else Some (GFS_OK, p)
             | Some len \<Rightarrow>
                 if vlen \<le> len then Some (GFS_ERR, []) else Some (GFS_OK, take len p)))"

section \<open>Correctness\<close>

lemma those_map_Some: "(\<And>x. x \<in> set xs \<Longrightarrow> f x = Some (g x)) \<Longrightarrow> those (map f xs) = Some (map g xs)"
  by (induction xs) auto

lemma hex_str_nth_digit: "d < 16 \<Longrightarrow> hex_num_at (hex_str ! d) = Some d"
proof -
  assume "d < 16"
  then have "d \<in> set [0..<16]" by simp
  moreover have "\<forall>d \<in> set [0..<16]. hex_num_at (hex_str ! d) = Some d"
    by code_simp
  ultimately show ?thesis by blast
qed

lemma length_hextostr_at [simp]: "length (hextostr_at b) = 2"
  by (simp add: hextostr_at_def)

lemma length_concat_hextostr [simp]: "length (concat (map hextostr_at bs)) = 2 * length bs"
  by (induction bs) auto

lemma unat_byte_less: "unat (b :: byte) < 256"
  using unsigned_less [where 'a = nat, of b] by simp

lemma nth_concat_hextostr:
  "i < length bs \<Longrightarrow> concat (map hextostr_at bs) ! (2 * i) = hex_str ! (unat (bs ! i) div 16)"
  "i < length bs \<Longrightarrow> concat (map hextostr_at bs) ! (2 * i + 1) = hex_str ! (unat (bs ! i) mod 16)"
  by (induction bs arbitrary: i)
     (auto simp: nth_Cons hextostr_at_def split: nat.split)

lemma strtohex_at_hextostr:
  assumes "i < length bs"
  shows "strtohex_at (concat (map hextostr_at bs)) i = Some (bs ! i)"
proof -
  have "unat (bs ! i) div 16 < 16" using unat_byte_less [of "bs ! i"] by simp
  moreover have "2 * i + 1 < 2 * length bs" using assms by simp
  ultimately show ?thesis
    using assms
    by (simp add: strtohex_at_def nth_opt_def nth_concat_hextostr [simplified] hex_str_nth_digit
        flip: of_nat_mult of_nat_add)
qed

lemma hextostr_all: "gfs_hextostr bs (length bs) = Some (2 * length bs, concat (map hextostr_at bs))"
  by (simp add: gfs_hextostr_def)

lemma strtohex_hextostr:
  "gfs_strtohex (concat (map hextostr_at bs)) (2 * length bs) = Some (length bs, bs)"
proof -
  have "those (map (strtohex_at (concat (map hextostr_at bs))) [0..<length bs])
        = Some (map (nth bs) [0..<length bs])"
    by (rule those_map_Some) (simp add: strtohex_at_hextostr)
  then show ?thesis by (simp add: gfs_strtohex_def map_nth)
qed

lemma url_loop_escape: "url_loop (concat (map (\<lambda>c. CHR ''%'' # hextostr_at (of_char c)) s)) = Some s"
proof (induction s)
  case Nil
  then show ?case by simp
next
  case (Cons c s)
  have u: "unat (of_char c :: byte) = of_char c"
    by (simp add: of_char_def unat_of_nat)
  have "(of_char c :: nat) div 16 < 16"
    by (rule less_mult_imp_div_less) simp
  then show ?case
    using Cons by (simp add: hextostr_at_def hex_str_nth_digit u)
qed

section \<open>Properties\<close>

text \<open>
  C31: \<open>gfs_hextostr\<close> prints \<open>n\<close> bytes as \<open>2 n\<close> digits, and \<open>gfs_strtohex\<close> reads these digits
  back to the same bytes.
\<close>

theorem hex_roundtrip:
  "\<exists>str. gfs_hextostr bs (length bs) = Some (2 * length bs, str) \<and> length str = 2 * length bs
     \<and> gfs_strtohex str (2 * length bs) = Some (length bs, bs)"
  using hextostr_all [of bs] strtohex_hextostr [of bs] by simp

text \<open>
  C32: \<open>gfs_url_parse\<close> decodes a string in which every character is escaped as a percent sign
  and two hexadecimal digits to that string.
\<close>

theorem url_roundtrip:
  "gfs_url_parse (Some (concat (map (\<lambda>c. CHR ''%'' # hextostr_at (of_char c)) s))) True = Some (GFS_OK, s)"
  by (simp add: gfs_url_parse_def url_loop_escape)

end
