(* ===== verification/Sql_Pool.thy ===== *)
theory Sql_Pool
  imports Sql
begin

text \<open>
  Invariants of the database layer. Every \<open>gfs_mysql_*\<close> function takes a connection, runs one statement
  and puts the connection back; the locale \<open>sql_keeps\<close> states what a property of the state must satisfy
  for these three steps, and shows that then every function keeps it. It is interpreted with the
  accounting of the connection pool, and used with what the statements do not touch.
\<close>

section \<open>What every function keeps\<close>

locale sql_keeps =
  fixes my :: "'w mysql" and inv :: "'w sqlst \<Rightarrow> bool"
  assumes keeps_get: "inv s \<Longrightarrow> gfs_mysql_get my s = Some (c, s') \<Longrightarrow> inv s'"
    and keeps_put: "inv s \<Longrightarrow> gfs_mysql_put my m s = Some (r, s') \<Longrightarrow> inv s'"
    and keeps_query: "inv s \<Longrightarrow> inv (s\<lparr>sq_world := snd (my_query my n q (sq_world s))\<rparr>)"
    and keeps_cpy: "inv s \<Longrightarrow> inv (s\<lparr>cpy_pages := i\<rparr>)"
    and keeps_del0: "inv s \<Longrightarrow> inv (s\<lparr>del0_pages := i\<rparr>)"
    and keeps_del1: "inv s \<Longrightarrow> inv (s\<lparr>del1_pages := i\<rparr>)"
begin

lemma sql_call: assumes "sql_call my cap query s = Some (out, s')" and "inv s" shows "inv s'"
proof -
  obtain c s1 where g: "gfs_mysql_get my s = Some (c, s1)" using assms(1) by (auto simp: sql_call_def bind_eq_Some_conv)
  then have i1: "inv s1" using assms(2) keeps_get by blast
  show ?thesis
  proof (cases c)
    case None
    then show ?thesis using assms(1) g i1 by (simp add: sql_call_def)
  next
    case (Some m)
    obtain rp w where q: "my_query my (my_conn m) query (sq_world s1) = (rp, w)" by fastforce
    then have i2: "inv (s1\<lparr>sq_world := w\<rparr>)" using keeps_query [OF i1, of "my_conn m" query] by simp
    then show ?thesis using assms(1) g Some q
      by (auto simp: sql_call_def bind_eq_Some_conv Let_def sprintf_buf_def split: if_splits dest: keeps_put)
  qed
qed

lemma sql_callE:
  assumes "(sql_call my cap query s \<bind> (\<lambda>(r, s). case r of NoConnection \<Rightarrow> f s | QueryFailed \<Rightarrow> g s | Reply c rp \<Rightarrow> h c rp s)) = Some y"
    and "inv s" and "\<And>s1. inv s1 \<Longrightarrow> f s1 = Some y \<Longrightarrow> thesis" and "\<And>s1. inv s1 \<Longrightarrow> g s1 = Some y \<Longrightarrow> thesis"
    and "\<And>s1 c rp. inv s1 \<Longrightarrow> h c rp s1 = Some y \<Longrightarrow> thesis"
  shows thesis
proof -
  obtain out s1 where c: "sql_call my cap query s = Some (out, s1)"
    using assms(1) by (cases "sql_call my cap query s") auto
  then have "inv s1" by (rule sql_call [OF _ assms(2)])
  then show thesis using assms(1,3-) c by (cases out) auto
qed

lemma sql_update: "sql_update my cap query err rtn s = Some (r, s') \<Longrightarrow> inv s \<Longrightarrow> inv s'"
  unfolding sql_update_def by (elim sql_callE) (auto simp: bind_eq_Some_conv dest: keeps_put)

lemma updates:
  "gfs_mysql_login my d n m s = Some (r, s') \<Longrightarrow> inv s \<Longrightarrow> inv s'"
  "gfs_mysql_delfile my h s = Some (r, s') \<Longrightarrow> inv s \<Longrightarrow> inv s'"
  "gfs_mysql_delblock my fid bi d s = Some (r, s') \<Longrightarrow> inv s \<Longrightarrow> inv s'"
  "gfs_mysql_cpyblock my fid bi d s = Some (r, s') \<Longrightarrow> inv s \<Longrightarrow> inv s'"
  "gfs_mysql_set_deling my fid bi d s = Some (r, s') \<Longrightarrow> inv s \<Longrightarrow> inv s'"
  unfolding gfs_mysql_login_def gfs_mysql_delfile_def gfs_mysql_delblock_def gfs_mysql_cpyblock_def
    gfs_mysql_set_deling_def
  by (erule (1) sql_update)+

lemma upload: "gfs_mysql_upload my h fs bn bi fid s = Some (r, s') \<Longrightarrow> inv s \<Longrightarrow> inv s'"
  unfolding gfs_mysql_upload_def by (elim sql_callE) (auto simp: bind_eq_Some_conv dest: keeps_put)

lemma getfsize: "gfs_mysql_getfsize my h fs s = Some (r, s') \<Longrightarrow> inv s \<Longrightarrow> inv s'"
  unfolding gfs_mysql_getfsize_def by (elim sql_callE) (auto simp: bind_eq_Some_conv dest: keeps_put)

lemma download: "gfs_mysql_download my h bi fid p s = Some (d, p', s') \<Longrightarrow> inv s \<Longrightarrow> inv s'"
  unfolding gfs_mysql_download_def Let_def
  by (elim sql_callE) (auto simp: bind_eq_Some_conv simp del: download_results.simps dest: keeps_put)

lemma get_cpyblock: "gfs_mysql_get_cpyblock my cap copies s = Some (r, s') \<Longrightarrow> inv s \<Longrightarrow> inv s'"
  unfolding gfs_mysql_get_cpyblock_def
  by (elim sql_callE) (auto simp: bind_eq_Some_conv Let_def split: option.splits intro: keeps_put keeps_cpy)

lemma get_delblock: "gfs_mysql_get_delblock my cap opt copies s = Some (r, s') \<Longrightarrow> inv s \<Longrightarrow> inv s'"
proof -
  assume i: "inv s" and d: "gfs_mysql_get_delblock my cap opt copies s = Some (r, s')"
  obtain pages where p: "(if opt = 0 then Some (del0_pages s) else if opt = 1 then Some (del1_pages s) else None) = Some pages"
    using d by (cases "opt = 0"; cases "opt = 1") (auto simp: gfs_mysql_get_delblock_def)
  show ?thesis
    using d i unfolding gfs_mysql_get_delblock_def p bind.bind_lunit
    by (elim sql_callE) (auto simp: bind_eq_Some_conv Let_def split: option.splits if_splits
        intro: keeps_put keeps_del0 keeps_del1)
qed

end

section \<open>The accounting of the pool\<close>

text \<open>
  \<open>n\<close> connections were made: \<open>conn_num\<close> of them are in the list, the others are counted in \<open>used_num\<close>,
  being in use or lost.
\<close>

definition pool_counts :: "int \<Rightarrow> 'w sqlst \<Rightarrow> bool" where
  "pool_counts n s \<longleftrightarrow> (\<exists>p. mysql_pool s = Some p \<and> pl_conn_num p = int (length (pl_conn p))
     \<and> pl_conn_num p + pl_used_num p = n)"

interpretation counts: sql_keeps my "pool_counts n" for my :: "'w mysql" and n :: int
proof (unfold_locales, goal_cases)
  case (1 s c s')
  then obtain p where "mysql_pool s = Some p" "pl_conn_num p = int (length (pl_conn p))" "pl_conn_num p + pl_used_num p = n"
    by (auto simp: pool_counts_def)
  then show ?case using 1(2) by (cases "pl_conn p") (auto simp: pool_counts_def gfs_mysql_get_def)
next
  case (2 s m r s')
  then obtain p where p: "mysql_pool s = Some p" "pl_conn_num p = int (length (pl_conn p))" "pl_conn_num p + pl_used_num p = n"
    by (auto simp: pool_counts_def)
  obtain ok w where ok: "my_malloc my (sq_world s) = (ok, w)" by fastforce
  obtain c w' where c: "gfs_connect_to my (pl_cfg p) w = (c, w')" by fastforce
  show ?case using 2(2) p ok c
    by (cases "my_used m = 1"; cases ok; cases c) (auto simp: pool_counts_def gfs_mysql_put_def pool_push_def)
qed (simp_all add: pool_counts_def)

text \<open>A call of the database layer, with any arguments.\<close>

inductive sql_op :: "'w mysql \<Rightarrow> 'w sqlst \<Rightarrow> 'w sqlst \<Rightarrow> bool" for my where
  op_login: "gfs_mysql_login my d n m s = Some (r, s') \<Longrightarrow> sql_op my s s'"
| op_delfile: "gfs_mysql_delfile my h s = Some (r, s') \<Longrightarrow> sql_op my s s'"
| op_delblock: "gfs_mysql_delblock my fid bi d s = Some (r, s') \<Longrightarrow> sql_op my s s'"
| op_cpyblock: "gfs_mysql_cpyblock my fid bi d s = Some (r, s') \<Longrightarrow> sql_op my s s'"
| op_set_deling: "gfs_mysql_set_deling my fid bi d s = Some (r, s') \<Longrightarrow> sql_op my s s'"
| op_upload: "gfs_mysql_upload my h fs bn bi fid s = Some (u, s') \<Longrightarrow> sql_op my s s'"
| op_getfsize: "gfs_mysql_getfsize my h fs s = Some (g, s') \<Longrightarrow> sql_op my s s'"
| op_download: "gfs_mysql_download my h bi fid p s = Some (dl, p', s') \<Longrightarrow> sql_op my s s'"
| op_get_cpyblock: "gfs_mysql_get_cpyblock my cap copies s = Some (b, s') \<Longrightarrow> sql_op my s s'"
| op_get_delblock: "gfs_mysql_get_delblock my cap opt copies s = Some (b, s') \<Longrightarrow> sql_op my s s'"

lemma sql_op_counts: "sql_op my s s' \<Longrightarrow> pool_counts n s \<Longrightarrow> pool_counts n s'"
  by (induction rule: sql_op.induct)
    (erule (1) counts.updates counts.upload counts.getfsize counts.download counts.get_cpyblock counts.get_delblock)+

lemma create_loop_counts:
  assumes "pool_create_loop my conn p w = Some y"
  shows "pl_conn_num p = int (length (pl_conn p)) \<and> pl_used_num p = 0 \<longrightarrow>
    pl_conn_num (fst (snd y)) = int (length (pl_conn (fst (snd y)))) \<and> pl_used_num (fst (snd y)) = 0
    \<and> (fst y \<longrightarrow> pl_conn_num (fst (snd y)) = conn)"
proof (rule pool_create_loop.raw_induct [OF _ assms], goal_cases)
  case (1 loop my conn p w y)
  obtain ok w1 where ok: "my_malloc my w = (ok, w1)" by fastforce
  obtain c w2 where c: "gfs_connect_to my (pl_cfg p) w1 = (c, w2)" by fastforce
  show ?case
  proof (cases "pl_conn_num p = conn \<or> \<not> ok \<or> c = None")
    case True
    then show ?thesis using 1(2) ok c by (auto simp: Let_def split: if_splits)
  next
    case False
    then have "loop my conn (p\<lparr>pl_conn := (the c)\<lparr>my_used := 0\<rparr> # pl_conn p, pl_conn_num := pl_conn_num p + 1\<rparr>) w2 = Some y"
      using 1(2) ok c by auto
    then show ?thesis using 1(1) by fastforce
  qed
qed

lemma init_counts:
  assumes "gfs_mysql_init my conn cfg s = Some (SQL_OK, s')"
  shows "pool_counts conn s'"
  using assms unfolding gfs_mysql_init_def gfs_mysql_pool_create_def
  by (auto simp: bind_eq_Some_conv pool_counts_def SQL_OK_def SQL_POOL_ERR_def split: prod.splits bool.splits if_splits
      dest!: create_loop_counts)

section \<open>Statements that fit their buffer\<close>

text \<open>With a pool, and a statement that fits, a call runs to its end.\<close>

lemma put_total: "mysql_pool s \<noteq> None \<Longrightarrow> \<exists>r s'. gfs_mysql_put my c s = Some (r, s') \<and> mysql_pool s' \<noteq> None"
  by (cases "mysql_pool s"; cases "my_used c = 1"; cases "my_malloc my (sq_world s)")
    (auto simp: gfs_mysql_put_def split: bool.splits prod.splits option.splits)

lemma sql_call_total:
  assumes "mysql_pool s \<noteq> None" and "length query < cap"
  shows "\<exists>out s'. sql_call my cap query s = Some (out, s') \<and> mysql_pool s' \<noteq> None"
proof -
  obtain p where p: "mysql_pool s = Some p" using assms(1) by auto
  have q: "sprintf_buf cap query = Some query" using assms(2) by (simp add: sprintf_buf_def)
  show ?thesis
  proof (cases "pl_conn p = [] \<or> pl_conn_num p = 0")
    case True
    then have "sql_call my cap query s = Some (NoConnection, s)"
      using p by (auto simp: sql_call_def gfs_mysql_get_def split: list.split)
    then show ?thesis using assms(1) by blast
  next
    case False
    then obtain c cs where c: "pl_conn p = c # cs" "pl_conn_num p \<noteq> 0" by (cases "pl_conn p") auto
    define s1 where "s1 = s\<lparr>mysql_pool := Some (p\<lparr>pl_conn := cs, pl_conn_num := pl_conn_num p - 1, pl_used_num := pl_used_num p + 1\<rparr>),
      sq_world := my_ping my (my_conn c) (sq_world s)\<rparr>"
    have g: "gfs_mysql_get my s = Some (Some c, s1)" using p c by (simp add: gfs_mysql_get_def s1_def)
    obtain rp w where rp: "my_query my (my_conn c) query (sq_world s1) = (rp, w)" by fastforce
    have pool: "mysql_pool (s1\<lparr>sq_world := w\<rparr>) \<noteq> None" by (simp add: s1_def)
    show ?thesis
    proof (cases "rp_failed rp")
      case True
      obtain r s2 where "gfs_mysql_put my (if rp_errno rp = CR_SERVER_LOST then c\<lparr>my_used := 1\<rparr> else c) (s1\<lparr>sq_world := w\<rparr>) = Some (r, s2)"
          "mysql_pool s2 \<noteq> None"
        using put_total [OF pool] by blast
      then show ?thesis using g q rp True by (simp add: sql_call_def Let_def)
    next
      case False
      then show ?thesis using g q rp pool by (simp add: sql_call_def Let_def)
    qed
  qed
qed

lemma sql_update_total:
  assumes "mysql_pool s \<noteq> None" and "length query < cap"
  shows "\<exists>r s'. sql_update my cap query err rtn s = Some (r, s') \<and> mysql_pool s' \<noteq> None"
proof -
  obtain out s1 where o: "sql_call my cap query s = Some (out, s1)" "mysql_pool s1 \<noteq> None"
    using sql_call_total [OF assms] by blast
  show ?thesis
  proof (cases out)
    case (Reply c rp)
    then show ?thesis using o put_total [OF o(2), of my c] by (auto simp: sql_update_def)
  qed (use o in \<open>simp_all add: sql_update_def\<close>)
qed

lemma block_args_length: "length (block_args fid bi d) \<le> 46"
  using length_dec_u64 [of fid] length_dec_i32 [of bi] length_dec_u32 [of d] by (simp add: block_args_def)

lemma delfile_total: "mysql_pool s \<noteq> None \<Longrightarrow> length h \<le> 32 \<Longrightarrow>
  \<exists>r s'. gfs_mysql_delfile my h s = Some (r, s') \<and> mysql_pool s' \<noteq> None"
  unfolding gfs_mysql_delfile_def by (rule sql_update_total) simp_all

section \<open>Properties\<close>

text \<open>
  C8: after a successful initialisation with \<open>conn\<close> connections, and any number of calls of the
  database layer with any arguments and any answers of the server, the counter \<open>conn_num\<close> of the pool is the
  number of connections in its list, and \<open>conn_num\<close> and \<open>used_num\<close> add up to \<open>conn\<close>.
\<close>

theorem pool_accounting:
  assumes "gfs_mysql_init my conn cfg s0 = Some (SQL_OK, s)" and "(sql_op my)\<^sup>*\<^sup>* s s'"
  shows "\<exists>p. mysql_pool s' = Some p \<and> pl_conn_num p = int (length (pl_conn p)) \<and> pl_conn_num p + pl_used_num p = conn"
proof -
  have "pool_counts conn s'"
    using assms(2) by (induction rule: rtranclp_induct) (auto intro: init_counts [OF assms(1)] sql_op_counts)
  then show ?thesis by (simp add: pool_counts_def)
qed

text \<open>A database that accepts every statement and answers with one affected row.\<close>

definition sample_reply :: my_reply where
  "sample_reply = \<lparr>rp_failed = False, rp_errno = 0, rp_affected = 1,
     rp_first = \<lparr>rs_rows = Some [[Some ''0'', Some ''77'']], rs_errno = 0, rs_fields = 2\<rparr>, rp_more = []\<rparr>"

definition sample_db :: "'w mysql" where
  "sample_db = \<lparr>my_malloc = (\<lambda>w. (True, w)), my_init = (\<lambda>w. (Some 1, w)), my_real_connect = (\<lambda>_ _ w. (True, w)),
     my_query = (\<lambda>_ _ w. (sample_reply, w)), my_ping = (\<lambda>_ w. w), my_close = (\<lambda>_ w. w)\<rparr>"

definition sample_cfg :: mysql_cfg where
  "sample_cfg = \<lparr>cfg_host = ''localhost'', cfg_port = 3306, cfg_db = ''gfs'', cfg_user = ''gfs'', cfg_pwd = ''gfs''\<rparr>"

definition sample_sql :: "'w \<Rightarrow> 'w sqlst" where
  "sample_sql w = \<lparr>mysql_pool = Some \<lparr>pl_conn = [\<lparr>my_conn = 1, my_used = 0\<rparr>], pl_conn_num = 1, pl_used_num = 0,
     pl_cfg = sample_cfg\<rparr>, cpy_pages = 0, del0_pages = 0, del1_pages = 0, sq_world = w\<rparr>"

lemma sample_init: "gfs_mysql_init sample_db 1 sample_cfg ((sample_sql w)\<lparr>mysql_pool := None\<rparr>) = Some (SQL_OK, sample_sql w)"
proof -
  note create = pool_create_loop.simps [of _ 1]
  have "pool_create_loop sample_db 1 \<lparr>pl_conn = [], pl_conn_num = 0, pl_used_num = 0, pl_cfg = sample_cfg\<rparr> w
      = Some (True, \<lparr>pl_conn = [\<lparr>my_conn = 1, my_used = 0\<rparr>], pl_conn_num = 1, pl_used_num = 0, pl_cfg = sample_cfg\<rparr>, w)"
    by (subst create, simp add: sample_db_def gfs_connect_to_def, subst create, simp)
  then show ?thesis
    by (simp add: gfs_mysql_init_def gfs_mysql_pool_create_def sample_sql_def strcpy_fits_def sample_cfg_def)
      (simp add: sample_db_def sample_cfg_def strcpy_fits_def)
qed

theorem pool_accounting_witness:
  "\<exists>s' p. (sql_op sample_db)\<^sup>*\<^sup>* (sample_sql ()) s' \<and> mysql_pool s' = Some p \<and> pl_conn_num p + pl_used_num p = 1"
proof -
  obtain r s' where "gfs_mysql_delfile sample_db ''00'' (sample_sql ()) = Some (r, s')"
    using delfile_total [of "sample_sql ()" "''00''" sample_db] by (auto simp: sample_sql_def)
  then have "sql_op sample_db (sample_sql ()) s'" by (rule op_delfile)
  then have run: "(sql_op sample_db)\<^sup>*\<^sup>* (sample_sql ()) s'" by (rule r_into_rtranclp)
  from pool_accounting [OF sample_init run] obtain p where "mysql_pool s' = Some p" "pl_conn_num p + pl_used_num p = 1"
    by (elim exE conjE)
  with run show ?thesis by (intro exI conjI)
qed

text \<open>
  C33: with a pool, the statements for a copied block, for a block that is being deleted and for a file
  whose hash has 32 digits always fit their stack buffer of 64 bytes, whatever the numbers are: the
  functions return, whatever the server answers.
\<close>

theorem updates_total:
  assumes "mysql_pool s \<noteq> None" and "length hash = 32"
  shows "gfs_mysql_cpyblock my fid bindex dsid s \<noteq> None \<and> gfs_mysql_set_deling my fid bindex dsid s \<noteq> None
    \<and> gfs_mysql_delfile my hash s \<noteq> None"
proof -
  have a: "length (block_args fid bindex dsid) \<le> 46" by (rule block_args_length)
  have "\<exists>r s'. gfs_mysql_cpyblock my fid bindex dsid s = Some (r, s')"
    unfolding gfs_mysql_cpyblock_def
    using sql_update_total [OF assms(1), of "''call copy_block('' @ block_args fid bindex dsid" 64] a by fastforce
  moreover have "\<exists>r s'. gfs_mysql_set_deling my fid bindex dsid s = Some (r, s')"
    unfolding gfs_mysql_set_deling_def
    using sql_update_total [OF assms(1), of "''call set_del_ing('' @ block_args fid bindex dsid" 64] a by fastforce
  ultimately show ?thesis using delfile_total [OF assms(1), of hash my] assms(2) by auto
qed

theorem updates_total_witness: "gfs_mysql_cpyblock sample_db 18446744073709551615 2147483648 4294967295 (sample_sql ()) \<noteq> None"
  using updates_total [of "sample_sql ()" "replicate 32 (CHR ''0'')"] by (simp add: sample_sql_def)

text \<open>
  C34: with a connection in the pool, \<open>gfs_mysql_login\<close> returns exactly when the id and the two sizes have
  together at most 44 decimal digits; otherwise \<open>sprintf\<close> writes past the end of the 64-byte buffer.
\<close>

theorem login_fits_iff:
  assumes "mysql_pool s = Some p" and "pl_conn p \<noteq> []" and "pl_conn_num p \<noteq> 0"
  shows "gfs_mysql_login my dsid dsize remain s = None
    \<longleftrightarrow> 45 \<le> length (dec_nat (unat dsid)) + length (dec_nat (unat dsize)) + length (dec_nat (unat remain))"
proof -
  define query where "query = ''call ds_login('' @ dec_nat (unat dsid) @ '', '' @ dec_nat (unat dsize) @ '', ''
    @ dec_nat (unat remain) @ '')''"
  have len: "length query = 19 + length (dec_nat (unat dsid)) + length (dec_nat (unat dsize)) + length (dec_nat (unat remain))"
    by (simp add: query_def)
  obtain c cs where "pl_conn p = c # cs" using assms(2) by (cases "pl_conn p") auto
  then have "64 \<le> length query \<Longrightarrow> sql_call my 64 query s = None"
    using assms by (simp add: sql_call_def gfs_mysql_get_def sprintf_buf_def)
  then show ?thesis
    using sql_update_total [of s query 64 my] assms(1) len unfolding gfs_mysql_login_def query_def [symmetric]
    by (cases "64 \<le> length query") (auto simp: sql_update_def [of my 64 query], fastforce)
qed

theorem login_fits_iff_witness:
  "gfs_mysql_login sample_db 4294967295 18446744073709551615 18446744073709551615 (sample_sql ()) = None"
  using login_fits_iff [of "sample_sql ()" "the (mysql_pool (sample_sql ()))" sample_db 4294967295 18446744073709551615 18446744073709551615]
    length_dec_nat_ge [of 9 4294967295] length_dec_nat_ge [of 19 18446744073709551615]
  by (simp add: sample_sql_def)

text \<open>
  C35: the fetch loop of the two paged queries stores one element per row, in the order of the rows, and
  writes past the array of \<open>cap\<close> elements exactly when the server returns more rows than that (for rows
  whose three columns are not null).
\<close>

theorem fetch_blocks_bound:
  assumes "\<forall>row \<in> set rows. col row 0 \<noteq> None \<and> col row 1 \<noteq> None \<and> col row 2 \<noteq> None"
  shows "fetch_blocks cap rows = (if length rows \<le> cap
    then Some (map (\<lambda>row. \<lparr>sb_bindex = atoi (the (col row 1)), sb_dsid = atoi (the (col row 2)), sb_fid = scast (atoi (the (col row 0)))\<rparr>) rows)
    else None)"
  using assms by (induction cap rows rule: fetch_blocks.induct) (auto split: nat.splits if_splits)

theorem fetch_blocks_bound_witness:
  "fetch_blocks 2 [[Some ''5'', Some ''1'', Some ''9'']] = Some [\<lparr>sb_bindex = atoi ''1'', sb_dsid = atoi ''9'', sb_fid = scast (atoi ''5'')\<rparr>]"
  using fetch_blocks_bound [of "[[Some ''5'', Some ''1'', Some ''9'']]" 2] by (simp add: col_def)

end
