(* ===== verification/Busi_types.thy ===== *)
theory Busi_types
  imports Server Tools Sql_Pool
begin

text \<open>
  The messages of \<open>busi/gfs_busi_types.h\<close> and the business object of \<open>busi/gfs_busi.c\<close>. A structure is
  a record of its fields with the values they have in memory, that is in network order until a parse
  function converts them. Casting a packet to a structure reads its fields at the offsets the compiler
  gives them; the packet is followed by the bytes the allocator rounds its copy up with.
\<close>

section \<open>Message heads\<close>

record gfs_busi_req_head =
  h_len :: u32
  h_id :: u32
  h_type :: u32
  h_encrypt :: u32

record gfs_busi_rsp_head =
  r_len :: u32
  r_id :: u32
  r_type :: u32
  r_rtn :: u32
  r_encrypt :: u32

definition cast_head :: "byte list \<Rightarrow> gfs_busi_req_head option" where
  "cast_head img = do {
     a \<leftarrow> ld32 img 0;
     b \<leftarrow> ld32 img 4;
     c \<leftarrow> ld32 img 8;
     d \<leftarrow> ld32 img 12;
     Some \<lparr>h_len = a, h_id = b, h_type = c, h_encrypt = d\<rparr>
   }"

definition rsp_head_bytes :: "gfs_busi_rsp_head \<Rightarrow> byte list" where
  "rsp_head_bytes h =
     bytes32 (r_len h) @ bytes32 (r_id h) @ bytes32 (r_type h) @ bytes32 (r_rtn h) @ bytes32 (r_encrypt h)"

text \<open>The assignments to the response head that every parse and handle function makes.\<close>

definition rsp_head :: "u32 \<Rightarrow> gfs_busi_req_head \<Rightarrow> u32 \<Rightarrow> gfs_busi_rsp_head" where
  "rsp_head len h rtn =
     \<lparr>r_len = htonl len, r_id = h_id h, r_type = h_type h, r_rtn = htonl rtn, r_encrypt = htonl 0\<rparr>"

section \<open>Messages\<close>

record gfs_busi_req_login =
  lq_head :: gfs_busi_req_head
  lq_type :: u32
  lq_dsid :: u32
  lq_remain :: u64
  lq_disk :: u64
  lq_port :: u32
  lq_separate :: u32

record gfs_busi_rsp_login =
  lr_head :: gfs_busi_rsp_head
  lr_bsize :: u32
  lr_separate :: u32

record gfs_busi_ds =
  ds_ip :: "byte list"
  ds_port :: u32

record gfs_busi_req_upload =
  uq_head :: gfs_busi_req_head
  uq_hash :: "byte list"
  uq_fsize :: u64
  uq_bnum :: u32
  uq_bindex :: u32
  uq_separate :: u32

record gfs_busi_rsp_upload =
  ur_head :: gfs_busi_rsp_head
  ur_fid :: u64
  ur_dsnum :: u32
  ur_dslist :: addr
  ur_elems :: "gfs_busi_ds list"

record gfs_busi_binfo =
  bi_bindex :: u32
  bi_port :: u32
  bi_ip :: "byte list"

record gfs_busi_req_download =
  dq_head :: gfs_busi_req_head
  dq_hash :: "byte list"
  dq_bindex :: u32

record gfs_busi_rsp_download =
  dr_head :: gfs_busi_rsp_head
  dr_fid :: u64
  dr_bnum :: u32

record gfs_busi_req_delfile =
  fq_head :: gfs_busi_req_head
  fq_hash :: "byte list"
  fq_separate :: u32

record gfs_busi_rsp_delfile =
  fr_head :: gfs_busi_rsp_head
  fr_separate :: u32

record gfs_busi_nte_delblock =
  db_head :: gfs_busi_req_head
  db_bid :: "byte list"
  db_remain :: u64
  db_separate :: u32

record gfs_busi_nte_cpyblock =
  cb_head :: gfs_busi_req_head
  cb_dsid :: u32
  cb_bid :: "byte list"
  cb_remain :: u64
  cb_separate :: u32

record gfs_busi_heartbeat =
  hb_head :: gfs_busi_req_head
  hb_type :: u32
  hb_weighted :: u32

record gfs_busi_req_getfsize =
  gq_head :: gfs_busi_req_head
  gq_hash :: "byte list"
  gq_separate :: u32

record gfs_busi_rsp_getfsize =
  gr_head :: gfs_busi_rsp_head
  gr_fsize :: u64
  gr_bsize :: u32

section \<open>Memory\<close>

definition ns_malloc :: "addr \<Rightarrow> u32 \<Rightarrow> 'w ns \<Rightarrow> addr \<times> 'w ns" where
  "ns_malloc c n s =
     (let (a, p) = pool_malloc n (n_pool (nets s c)) in (a, upd_net c (\<lambda>x. x\<lparr>n_pool := p\<rparr>) s))"

definition ns_free :: "addr \<Rightarrow> addr \<Rightarrow> 'w ns \<Rightarrow> 'w ns option" where
  "ns_free c a s = do {
     p \<leftarrow> pool_free a (n_pool (nets s c));
     Some (upd_net c (\<lambda>x. x\<lparr>n_pool := p\<rparr>) s)
   }"

text \<open>The bytes \<open>i\<close> to \<open>j - 1\<close> of a fresh block.\<close>

definition junk :: "'w env \<Rightarrow> 'w ns \<Rightarrow> nat \<Rightarrow> nat \<Rightarrow> byte list" where
  "junk E s i j = map (os_junk E (world s)) [i..<j]"

text \<open>A block of \<open>n\<close> bytes whose beginning is written with \<open>bs\<close>.\<close>

definition blit :: "'w env \<Rightarrow> 'w ns \<Rightarrow> nat \<Rightarrow> byte list \<Rightarrow> byte list option" where
  "blit E s n bs = (if length bs \<le> n then Some (bs @ junk E s (length bs) n) else None)"

text \<open>The number of usable bytes of a block for \<open>n\<close> bytes, \<open>16 \<le> n \<le> 3072\<close>: the alignment and one spare word.\<close>

definition usable :: "nat \<Rightarrow> nat" where
  "usable n = (n + 7) div 8 * 8 + 8"

section \<open>The business object\<close>

record gfs_busi =
  b_type :: u32
  b_img :: "byte list"
  b_sbuf :: gfs_net_buf
  a_busi :: addr
  a_rbuf :: addr
  a_rsh :: addr
  a_sbuf :: addr

text \<open>The column \<open>rsp_size\<close> of \<open>gfs_busi_data\<close>.\<close>

definition rsp_size :: "u32 \<Rightarrow> u32" where
  "rsp_size type =
     (if type = 1 then 28 else if type = 2 then 56 else if type = 3 then 56 else if type = 4 then 24
      else if type = 6 \<or> type = 8 \<or> type = 9 then 48 else if type = 10 then 40 else 0)"

definition empty_buf :: gfs_net_buf where
  "empty_buf = \<lparr>nb_data = [], nb_len = 0, nb_pos = 0, nb_hd = 0\<rparr>"

definition gfs_busi_create :: "'w env \<Rightarrow> addr \<Rightarrow> byte list \<Rightarrow> 'w ns \<Rightarrow> (gfs_busi option \<times> 'w ns) option" where
  "gfs_busi_create E c data s = do {
     let (busi, s) = ns_malloc c 112 s;
     if busi = NULL then Some (None, s)
     else do {
       let (pbuf, s) = ns_malloc c (of_nat (length data)) s;
       if pbuf = NULL then do {
         s \<leftarrow> ns_free c busi s;
         Some (None, s)
       }
       else do {
         let img = data @ junk E s (length data) (usable (length data));
         id \<leftarrow> ld32 data 4;
         type \<leftarrow> ld32 data 8;
         let type = ntohl type;
         if type < 1 \<or> type > 10 then Some (None, s)
         else do {
           let (rsh, s) = ns_malloc c (rsp_size type) s;
           if rsh = NULL then do {
             s \<leftarrow> ns_free c pbuf s;
             s \<leftarrow> ns_free c busi s;
             Some (None, s)
           }
           else Some (Some \<lparr>b_type = type, b_img = img, b_sbuf = empty_buf, a_busi = busi, a_rbuf = pbuf,
                            a_rsh = rsh, a_sbuf = NULL\<rparr>, s)
         }
       }
     }
   }"

definition gfs_busi_destory :: "addr \<Rightarrow> gfs_busi \<Rightarrow> 'w ns \<Rightarrow> 'w ns option" where
  "gfs_busi_destory c b s = do {
     s \<leftarrow> ns_free c (a_rsh b) s;
     s \<leftarrow> ns_free c (a_rbuf b) s;
     s \<leftarrow> ns_free c (a_sbuf b) s;
     ns_free c (a_busi b) s
   }"

text \<open>A send buffer that is full of the bytes to send.\<close>

definition full_buf :: "byte list \<Rightarrow> nat \<Rightarrow> gfs_net_buf" where
  "full_buf bs n = \<lparr>nb_data = bs, nb_len = n, nb_pos = n, nb_hd = 0\<rparr>"

end
