(* ===== verification/Busi_ds.thy ===== *)
theory Busi_ds
  imports Busi_types
begin

text \<open>
  The messages of the data servers: login (\<open>busi/gfs_busi_login.c\<close>), heartbeat
  (\<open>busi/gfs_busi_heartbeat.c\<close>) and the notices that a block was deleted
  (\<open>busi/gfs_busi_delete_block.c\<close>) or copied (\<open>busi/gfs_busi_copy_block.c\<close>). A parse function returns
  \<^term>\<open>Inl\<close> the response it prepared when it returns \<open>GFS_BUSI_ERR\<close>, and \<^term>\<open>Inr\<close> the converted
  request when it returns \<open>GFS_OK\<close>.
\<close>

section \<open>Login\<close>

definition gfs_busi_login_parse ::
  "byte list \<Rightarrow> 'w ns \<Rightarrow> (gfs_busi_rsp_login + gfs_busi_req_login) option" where
  "gfs_busi_login_parse img s = do {
     h \<leftarrow> cast_head img;
     let h = h\<lparr>h_len := ntohl (h_len h)\<rparr>;
     if h_len h \<noteq> 48 then
       Some (Inl \<lparr>lr_head = rsp_head 28 h GFS_BUSI_RTN_MSG_FORMAT_ERR, lr_bsize = htonl (g_block_size s),
                  lr_separate = 0\<rparr>)
     else do {
       type \<leftarrow> ld32 img 16;
       dsid \<leftarrow> ld32 img 20;
       remain \<leftarrow> ld64 img 24;
       disk \<leftarrow> ld64 img 32;
       port \<leftarrow> ld32 img 40;
       separate \<leftarrow> ld32 img 44;
       Some (Inr \<lparr>lq_head = h\<lparr>h_encrypt := ntohl (h_encrypt h)\<rparr>, lq_type = ntohl type, lq_dsid = ntohl dsid,
                  lq_remain = ntohll remain, lq_disk = ntohll disk, lq_port = ntohl port,
                  lq_separate = ntohl separate\<rparr>)
     }
   }"

definition login_user :: "gfs_busi_req_login \<Rightarrow> gfs_net_data \<Rightarrow> gfs_net_data" where
  "login_user req u =
     u\<lparr>u_ctype := lq_type req, u_dsid := lq_dsid req, u_resize := lq_remain req, u_dsize := lq_disk req,
       u_cfft := ucast ((lq_remain req * 100) div lq_disk req), u_port := lq_port req\<rparr>"

definition gfs_busi_login_handle ::
  "'w env \<Rightarrow> addr \<Rightarrow> gfs_busi_req_login \<Rightarrow> 'w ns \<Rightarrow> (gfs_busi_rsp_login \<times> 'w ns) option" where
  "gfs_busi_login_handle E c req s = do {
     let rsp = (\<lambda>rtn. \<lparr>lr_head = rsp_head 28 (lq_head req) rtn, lr_bsize = htonl (g_block_size s), lr_separate = 0\<rparr>);
     if h_encrypt (lq_head req) \<noteq> 0 then Some (rsp GFS_BUSI_RTN_OK, s)
     else if lq_type req = GFS_CLIENT_TYPE_PS then Some (rsp GFS_BUSI_RTN_OK, s)
     else if lq_type req \<noteq> GFS_CLIENT_TYPE_DS then Some (rsp GFS_BUSI_RTN_UNKNOWN_CLIENT, s)
     else if lq_remain req > lq_disk req then Some (rsp GFS_BUSI_RTN_OK, s)
     else do {
       (ret, q) \<leftarrow> gfs_mysql_login (db E) (lq_dsid req) (lq_disk req) (lq_remain req) (sql s);
       let s = s\<lparr>sql := q\<rparr>;
       if ret \<noteq> SQL_OK then Some (rsp GFS_BUSI_RTN_SYS_ERR, s)
       else if lq_disk req = 0 then None
       else do {
         let s = upd_net c (n_user_update (login_user req)) s;
         (ret, m) \<leftarrow> gfs_net_map_add (lq_dsid req) c (dsmap s);
         let s = s\<lparr>dsmap := m\<rparr>;
         Some (rsp (if ret \<noteq> GFS_OK then GFS_BUSI_RTN_SYS_ERR else GFS_BUSI_RTN_OK), s)
       }
     }
   }"

definition rsp_login_bytes :: "gfs_busi_rsp_login \<Rightarrow> byte list" where
  "rsp_login_bytes r = rsp_head_bytes (lr_head r) @ bytes32 (lr_bsize r) @ bytes32 (lr_separate r)"

text \<open>
  The size passed to the allocator is the length still in network order; the copy takes \<open>pos\<close> bytes
  from the response structure.
\<close>

definition gfs_busi_login_tobuf ::
  "'w env \<Rightarrow> addr \<Rightarrow> gfs_busi_rsp_login \<Rightarrow> gfs_busi \<Rightarrow> 'w ns \<Rightarrow> (gfs_busi \<times> 'w ns) option" where
  "gfs_busi_login_tobuf E c rsp b s = do {
     let n = unat (ntohl (r_len (lr_head rsp)));
     let (a, s) = ns_malloc c (r_len (lr_head rsp)) s;
     if a = NULL then Some (b\<lparr>b_sbuf := full_buf [] n\<rparr>, s)
     else do {
       bs \<leftarrow> ldbytes n (rsp_login_bytes rsp) 0;
       Some (b\<lparr>b_sbuf := full_buf bs n, a_sbuf := a\<rparr>, s)
     }
   }"

section \<open>Heartbeat\<close>

definition gfs_busi_heartbeat_parse :: "byte list \<Rightarrow> (unit + gfs_busi_heartbeat) option" where
  "gfs_busi_heartbeat_parse img = do {
     h \<leftarrow> cast_head img;
     let h = h\<lparr>h_len := ntohl (h_len h)\<rparr>;
     if h_len h \<noteq> 28 then Some (Inl ())
     else do {
       type \<leftarrow> ld32 img 16;
       weighted \<leftarrow> ld32 img 20;
       Some (Inr \<lparr>hb_head = h\<lparr>h_encrypt := ntohl (h_encrypt h)\<rparr>, hb_type = ntohl type,
                  hb_weighted = ntohl weighted\<rparr>)
     }
   }"

definition gfs_busi_heartbeat_handle :: "addr \<Rightarrow> gfs_busi_heartbeat \<Rightarrow> 'w ns \<Rightarrow> 'w ns" where
  "gfs_busi_heartbeat_handle c req s =
     (if h_encrypt (hb_head req) \<noteq> 0 then s
      else if u_ctype (n_user (nets s c)) = GFS_CLIENT_TYPE_PS then s
      else if hb_weighted req > 100 then s
      else upd_net c (n_user_update (\<lambda>u. u\<lparr>u_weight := hb_weighted req\<rparr>)) s)"

definition gfs_busi_heartbeat_tobuf :: "gfs_busi \<Rightarrow> gfs_busi" where
  "gfs_busi_heartbeat_tobuf b = b"

section \<open>Block notices\<close>

text \<open>
  The structure has its 64-bit member at offset 32, the wire format puts it at offset 28: \<open>remain\<close> is
  read from the wrong place and \<open>separate\<close> from behind the packet.
\<close>

definition gfs_busi_delete_block_parse :: "byte list \<Rightarrow> (unit + gfs_busi_nte_delblock) option" where
  "gfs_busi_delete_block_parse img = do {
     h \<leftarrow> cast_head img;
     let h = h\<lparr>h_len := ntohl (h_len h)\<rparr>;
     if h_len h \<noteq> 40 then Some (Inl ())
     else do {
       bid \<leftarrow> ldbytes 12 img 16;
       remain \<leftarrow> ld64 img 32;
       separate \<leftarrow> ld32 img 40;
       Some (Inr \<lparr>db_head = h\<lparr>h_encrypt := ntohl (h_encrypt h)\<rparr>, db_bid = bid, db_remain = ntohll remain,
                  db_separate = ntohl separate\<rparr>)
     }
   }"

definition gfs_busi_delete_block_handle ::
  "'w env \<Rightarrow> addr \<Rightarrow> gfs_busi_nte_delblock \<Rightarrow> 'w ns \<Rightarrow> 'w ns option" where
  "gfs_busi_delete_block_handle E c req s =
     (if h_encrypt (db_head req) \<noteq> 0 then Some s
      else do {
        fid \<leftarrow> ld64 (db_bid req) 0;
        bindex \<leftarrow> ld32 (db_bid req) 8;
        (ret, q) \<leftarrow> gfs_mysql_delblock (db E) (ntohll fid) (ntohl bindex) (u_dsid (n_user (nets s c))) (sql s);
        Some (s\<lparr>sql := q\<rparr>)
      })"

definition gfs_busi_delete_block_tobuf :: "gfs_busi \<Rightarrow> gfs_busi" where
  "gfs_busi_delete_block_tobuf b = b"

definition gfs_busi_copy_block_parse :: "byte list \<Rightarrow> (unit + gfs_busi_nte_cpyblock) option" where
  "gfs_busi_copy_block_parse img = do {
     h \<leftarrow> cast_head img;
     let h = h\<lparr>h_len := ntohl (h_len h)\<rparr>;
     if h_len h \<noteq> 44 then Some (Inl ())
     else do {
       dsid \<leftarrow> ld32 img 16;
       bid \<leftarrow> ldbytes 12 img 20;
       remain \<leftarrow> ld64 img 32;
       separate \<leftarrow> ld32 img 40;
       Some (Inr \<lparr>cb_head = h\<lparr>h_encrypt := ntohl (h_encrypt h), h_id := ntohl (h_id h)\<rparr>, cb_dsid = ntohl dsid,
                  cb_bid = bid, cb_remain = ntohll remain, cb_separate = ntohl separate\<rparr>)
     }
   }"

definition gfs_busi_copy_block_handle ::
  "'w env \<Rightarrow> addr \<Rightarrow> gfs_busi_nte_cpyblock \<Rightarrow> 'w ns \<Rightarrow> (int \<times> 'w ns) option" where
  "gfs_busi_copy_block_handle E c req s =
     (if h_encrypt (cb_head req) \<noteq> 0 then Some (GFS_OK, s)
      else do {
        fid \<leftarrow> ld64 (cb_bid req) 0;
        bindex \<leftarrow> ld32 (cb_bid req) 8;
        (ret, q) \<leftarrow> gfs_mysql_cpyblock (db E) (ntohll fid) (ntohl bindex) (cb_dsid req) (sql s);
        Some (if ret \<noteq> SQL_OK then GFS_ERR else GFS_OK, s\<lparr>sql := q\<rparr>)
      })"

definition gfs_busi_copy_block_tobuf :: "gfs_busi \<Rightarrow> gfs_busi" where
  "gfs_busi_copy_block_tobuf b = b"

end
