(* ===== verification/Busi_file.thy ===== *)
theory Busi_file
  imports Busi_types
begin

text \<open>
  The messages of the proxies: upload (\<open>busi/gfs_busi_upload.c\<close>), download
  (\<open>busi/gfs_busi_download.c\<close>), delete (\<open>busi/gfs_busi_delete_file.c\<close>) and the size query
  (\<open>busi/gfs_busi_getfsize.c\<close>). The conventions are those of the data server messages. A field of a
  response that the code does not assign has what the fresh block holds at its offset.
\<close>

section \<open>Upload\<close>

definition gfs_busi_upload_parse ::
  "byte list \<Rightarrow> (gfs_busi_rsp_upload + gfs_busi_req_upload) option" where
  "gfs_busi_upload_parse img = do {
     h \<leftarrow> cast_head img;
     let h = h\<lparr>h_len := ntohl (h_len h)\<rparr>;
     if h_len h \<noteq> 52 then
       Some (Inl \<lparr>ur_head = rsp_head 36 h GFS_BUSI_RTN_MSG_FORMAT_ERR, ur_fid = ucast (htonl 0),
                  ur_dsnum = htonl 0, ur_dslist = NULL, ur_elems = []\<rparr>)
     else do {
       hash \<leftarrow> ldbytes 16 img 16;
       fsize \<leftarrow> ld64 img 32;
       bnum \<leftarrow> ld32 img 40;
       bindex \<leftarrow> ld32 img 44;
       separate \<leftarrow> ld32 img 48;
       Some (Inr \<lparr>uq_head = h\<lparr>h_encrypt := ntohl (h_encrypt h)\<rparr>, uq_hash = hash, uq_fsize = ntohll fsize,
                  uq_bnum = ntohl bnum, uq_bindex = ntohl bindex, uq_separate = ntohl separate\<rparr>)
     }
   }"

text \<open>The address bytes are followed by the unassigned rest of the 16-byte field.\<close>

definition upload_ds :: "'w env \<Rightarrow> 'w ns \<Rightarrow> nat \<Rightarrow> addr \<Rightarrow> gfs_busi_ds" where
  "upload_ds E s i net =
     \<lparr>ds_ip = bytes32 (n_sin_addr (nets s net)) @ junk E s (20 * i + 4) (20 * i + 16),
      ds_port = htonl (u_port (n_user (nets s net)))\<rparr>"

definition gfs_busi_upload_handle ::
  "'w env \<Rightarrow> addr \<Rightarrow> gfs_busi_req_upload \<Rightarrow> 'w ns \<Rightarrow> (gfs_busi_rsp_upload \<times> 'w ns) option" where
  "gfs_busi_upload_handle E c req s = do {
     let rsp = \<lparr>ur_head = rsp_head 36 (uq_head req) GFS_BUSI_RTN_OK, ur_fid = ucast (htonl 0), ur_dsnum = htonl 0,
                ur_dslist = NULL, ur_elems = []\<rparr>;
     let rtn = (\<lambda>v r. r\<lparr>ur_head := (ur_head r)\<lparr>r_rtn := htonl v\<rparr>\<rparr>);
     if h_encrypt (uq_head req) \<noteq> 0 then Some (rtn GFS_BUSI_RTN_OK rsp, s)
     else if sint (uq_bindex req) < -1 \<or> uq_bnum req < 1 \<or> uq_fsize req \<le> 0 then
       Some (rtn GFS_BUSI_RTN_OK rsp, s)
     else if uq_bnum req > 150 then Some (rtn GFS_BUSI_RTN_BLOCK_TOO_MUCH rsp, s)
     else do {
       (ret, pnet, m) \<leftarrow> gfs_net_map_gettopn (os_raw E (world s)) (os_time E (world s)) 3 (dsmap s);
       let s = s\<lparr>dsmap := m\<rparr>;
       if ret \<noteq> GFS_OK then Some (rtn GFS_BUSI_RTN_SYS_ERR rsp, s)
       else do {
         let num = (of_nat (length pnet) :: u32);
         let rsp = rsp\<lparr>ur_head := (ur_head rsp)\<lparr>r_len := htonl (ntohl (r_len (ur_head rsp)) + num * 20)\<rparr>,
                       ur_dsnum := htonl num\<rparr>;
         if ur_dsnum rsp = 0 then Some (rtn GFS_BUSI_RTN_NO_DS_USE rsp, s)
         else do {
           let (pdata, s) = ns_malloc c (num * 20) s;
           if pdata = NULL then Some (rtn GFS_BUSI_RTN_SYS_ERR rsp, s)
           else do {
             let rsp = rsp\<lparr>ur_dslist := pdata,
                           ur_elems := map (\<lambda>(i, net). upload_ds E s i net) (enumerate 0 pnet)\<rparr>;
             (_, hash) \<leftarrow> gfs_hextostr (uq_hash req) 16;
             ((ret, status, fid), q) \<leftarrow> gfs_mysql_upload (db E) hash (uq_fsize req) (uq_bnum req) (uq_bindex req) 0 (sql s);
             let s = s\<lparr>sql := q\<rparr>;
             if ret \<noteq> SQL_OK then Some (rtn GFS_BUSI_RTN_SYS_ERR rsp, s)
             else if status = SQL_FILE_EXIT_COMPLETE then Some (rtn GFS_BUSI_RTN_FILE_FINISHED rsp, s)
             else if status = SQL_BLOCK_EXIST then Some (rtn GFS_BUSI_RTN_BLOCK_EXIST rsp, s)
             else Some (rsp\<lparr>ur_fid := htonll fid\<rparr>, s)
           }
         }
       }
     }
   }"

definition ds_bytes :: "gfs_busi_ds \<Rightarrow> byte list" where
  "ds_bytes d = ds_ip d @ bytes32 (ds_port d)"

definition rsp_upload_bytes :: "gfs_busi_rsp_upload \<Rightarrow> byte list" where
  "rsp_upload_bytes r =
     rsp_head_bytes (ur_head r) @ bytes64 (ur_fid r) @ bytes32 (ur_dsnum r)
     @ concat (map ds_bytes (ur_elems r)) @ [0, 0, 0, 0]"

text \<open>
  The list is copied with a length computed from \<open>dsnum\<close>; reading past its elements is undefined, and
  so is writing past the block.
\<close>

definition gfs_busi_upload_tobuf ::
  "'w env \<Rightarrow> addr \<Rightarrow> gfs_busi_rsp_upload \<Rightarrow> gfs_busi \<Rightarrow> 'w ns \<Rightarrow> (gfs_busi \<times> 'w ns) option" where
  "gfs_busi_upload_tobuf E c rsp b s = do {
     let n = unat (htonl (r_len (ur_head rsp)));
     let (a, s) = ns_malloc c (of_nat n) s;
     if a = NULL then do {
       s \<leftarrow> ns_free c (ur_dslist rsp) s;
       Some (b\<lparr>b_sbuf := full_buf [] n\<rparr>, s)
     }
     else if unat (ntohl (ur_dsnum rsp)) \<noteq> length (ur_elems rsp) then None
     else do {
       bs \<leftarrow> blit E s n (rsp_upload_bytes rsp);
       s \<leftarrow> ns_free c (ur_dslist rsp) s;
       Some (b\<lparr>b_sbuf := full_buf bs n, a_sbuf := a\<rparr>, s)
     }
   }"

section \<open>Download\<close>

definition gfs_busi_download_parse ::
  "'w env \<Rightarrow> byte list \<Rightarrow> 'w ns \<Rightarrow> (gfs_busi_rsp_download + gfs_busi_req_download) option" where
  "gfs_busi_download_parse E img s = do {
     h \<leftarrow> cast_head img;
     let h = h\<lparr>h_len := ntohl (h_len h)\<rparr>;
     if h_len h \<noteq> 40 then
       Some (Inl \<lparr>dr_head = rsp_head 36 h GFS_BUSI_RTN_MSG_FORMAT_ERR, dr_fid = of_bytes64 (junk E s 24 32),
                  dr_bnum = htonl 0\<rparr>)
     else do {
       hash \<leftarrow> ldbytes 16 img 16;
       bindex \<leftarrow> ld32 img 32;
       Some (Inr \<lparr>dq_head = h\<lparr>h_encrypt := ntohl (h_encrypt h)\<rparr>, dq_hash = hash, dq_bindex = ntohl bindex\<rparr>)
     }
   }"

text \<open>
  The third result is \<open>busi->data\<close>: the address of the block list and its elements. On the branches
  that do not set it, it is the \<open>NULL\<close> of \<open>gfs_busi_create\<close>, also when the query had allocated a list.
\<close>

definition gfs_busi_download_handle ::
  "'w env \<Rightarrow> addr \<Rightarrow> gfs_busi_req_download \<Rightarrow> 'w ns \<Rightarrow>
   (gfs_busi_rsp_download \<times> (addr \<times> (u32 \<times> u32) option list) \<times> 'w ns) option" where
  "gfs_busi_download_handle E c req s = do {
     let rsp = \<lparr>dr_head = rsp_head 36 (dq_head req) GFS_BUSI_RTN_OK, dr_fid = of_bytes64 (junk E s 24 32),
                dr_bnum = htonl 0\<rparr>;
     let rtn = (\<lambda>v r. r\<lparr>dr_head := (dr_head r)\<lparr>r_rtn := htonl v\<rparr>\<rparr>);
     if h_encrypt (dq_head req) \<noteq> 0 then Some (rtn GFS_BUSI_RTN_OK rsp, (NULL, []), s)
     else do {
       (_, hash) \<leftarrow> gfs_hextostr (dq_hash req) 16;
       if sint (dq_bindex req) < -1 then Some (rtn GFS_BUSI_RTN_OK rsp, (NULL, []), s)
       else do {
         (d, p, q) \<leftarrow> gfs_mysql_download (db E) hash (dq_bindex req) 0 (n_pool (nets s c)) (sql s);
         let s = (upd_net c (\<lambda>x. x\<lparr>n_pool := p\<rparr>) s)\<lparr>sql := q\<rparr>;
         if dl_rtn d = SQL_EMPTY then Some (rtn GFS_BUSI_RTN_FILE_NOT_EXIST rsp, (NULL, []), s)
         else if dl_rtn d = SQL_ERROR then Some (rtn GFS_BUSI_RTN_SYS_ERR rsp, (NULL, []), s)
         else do {
           let rsp = rsp\<lparr>dr_fid := htonll (dl_fid d)\<rparr>;
           if dl_bnum d < 1 \<or> dl_blist d = NULL then Some (rtn GFS_BUSI_RTN_BLOCK_NOT_EXIST rsp, (NULL, []), s)
           else Some (rsp\<lparr>dr_bnum := htonl (of_nat (dl_bnum d))\<rparr>, (dl_blist d, dl_elems d), s)
         }
       }
     }
   }"

text \<open>
  The loop of \<open>gfs_busi_download_tobuf\<close>: \<open>b\<close> is the length of the list built so far, which is kept in
  reverse. When nothing has been stored, \<open>blist[b-1].bindex\<close> is the word 24 bytes before the list, the
  type of the response head.
\<close>

fun download_loop ::
  "'w env \<Rightarrow> 'w ns \<Rightarrow> u32 \<Rightarrow> (u32 \<times> u32) option list \<Rightarrow> gfs_busi_binfo list \<Rightarrow> u32 \<Rightarrow> u32 \<Rightarrow>
   gfs_busi_binfo list option" where
  "download_loop E s type [] acc dsnum bindex = Some (rev acc)"
| "download_loop E s type (e # blist) acc dsnum bindex = do {
     (bi, dsid) \<leftarrow> e;
     let prev = (case acc of [] \<Rightarrow> type | x # _ \<Rightarrow> bi_bindex x);
     if dsnum \<ge> g_copies s \<and> prev = htonl bi then download_loop E s type blist acc dsnum bindex
     else do {
       let dsnum = (if dsnum \<ge> g_copies s then 0 else dsnum);
       if length acc > 150 then Some (rev acc)
       else do {
         net \<leftarrow> gfs_net_map_get dsid (dsmap s);
         if net = NULL then download_loop E s type blist acc dsnum bindex
         else do {
           let x = \<lparr>bi_bindex = htonl bi, bi_port = htonl (u_port (n_user (nets s net))),
                    bi_ip = bytes32 (n_sin_addr (nets s net))
                      @ junk E s (44 + 24 * length acc) (56 + 24 * length acc)\<rparr>;
           download_loop E s type blist (x # acc) (if bindex \<noteq> bi then 1 else dsnum + 1) bi
         }
       }
     }
   }"

definition binfo_bytes :: "gfs_busi_binfo \<Rightarrow> byte list" where
  "binfo_bytes x = bytes32 (bi_bindex x) @ bytes32 (bi_port x) @ bi_ip x"

definition rsp_download_bytes :: "gfs_busi_rsp_download \<Rightarrow> gfs_busi_binfo list \<Rightarrow> byte list" where
  "rsp_download_bytes r bs =
     rsp_head_bytes (dr_head r) @ bytes64 (dr_fid r) @ bytes32 (dr_bnum r)
     @ concat (map binfo_bytes bs) @ [0, 0, 0, 0]"

text \<open>\<open>n\<close> is the size of the block the response is built in.\<close>

definition gfs_busi_download_tobuf ::
  "'w env \<Rightarrow> addr \<Rightarrow> gfs_busi_rsp_download \<Rightarrow> addr \<times> (u32 \<times> u32) option list \<Rightarrow> gfs_busi \<Rightarrow> 'w ns \<Rightarrow>
   (gfs_busi \<times> 'w ns) option" where
  "gfs_busi_download_tobuf E c rsp data b s = do {
     let (blist, elems) = data;
     let bnum = ntohl (dr_bnum rsp);
     let n = (if bnum = 0 then htonl (r_len (dr_head rsp)) else bnum * 24 + 36);
     let (a, s) = ns_malloc c n s;
     if a = NULL then do {
       s \<leftarrow> ns_free c blist s;
       Some (b\<lparr>b_sbuf := full_buf [] (unat (htonl (r_len (dr_head rsp))))\<rparr>, s)
     }
     else if length elems < unat bnum then None
     else do {
       bs \<leftarrow> download_loop E s (r_type (dr_head rsp)) (take (unat bnum) elems) [] 0 0;
       let len = (of_nat (length bs) * 24 + ntohl (r_len (dr_head rsp)) :: u32);
       let rsp = rsp\<lparr>dr_bnum := htonl (of_nat (length bs)), dr_head := (dr_head rsp)\<lparr>r_len := htonl len\<rparr>\<rparr>;
       out \<leftarrow> blit E s (unat n) (rsp_download_bytes rsp bs);
       s \<leftarrow> ns_free c blist s;
       Some (b\<lparr>b_sbuf := full_buf out (unat len), a_sbuf := a\<rparr>, s)
     }
   }"

section \<open>Delete\<close>

definition gfs_busi_delete_file_parse ::
  "byte list \<Rightarrow> (gfs_busi_rsp_delfile + gfs_busi_req_delfile) option" where
  "gfs_busi_delete_file_parse img = do {
     h \<leftarrow> cast_head img;
     let h = h\<lparr>h_len := ntohl (h_len h)\<rparr>;
     if h_len h \<noteq> 36 then
       Some (Inl \<lparr>fr_head = rsp_head 24 h GFS_BUSI_RTN_MSG_FORMAT_ERR, fr_separate = htonl 0\<rparr>)
     else do {
       hash \<leftarrow> ldbytes 16 img 16;
       separate \<leftarrow> ld32 img 32;
       Some (Inr \<lparr>fq_head = h\<lparr>h_encrypt := ntohl (h_encrypt h)\<rparr>, fq_hash = hash, fq_separate = ntohl separate\<rparr>)
     }
   }"

definition gfs_busi_delete_file_handle ::
  "'w env \<Rightarrow> gfs_busi_req_delfile \<Rightarrow> 'w ns \<Rightarrow> (gfs_busi_rsp_delfile \<times> 'w ns) option" where
  "gfs_busi_delete_file_handle E req s = do {
     let rsp = (\<lambda>rtn. \<lparr>fr_head = rsp_head 24 (fq_head req) rtn, fr_separate = htonl 0\<rparr>);
     if h_encrypt (fq_head req) \<noteq> 0 then Some (rsp GFS_BUSI_RTN_OK, s)
     else do {
       (_, hash) \<leftarrow> gfs_hextostr (fq_hash req) 16;
       (ret, q) \<leftarrow> gfs_mysql_delfile (db E) hash (sql s);
       let s = s\<lparr>sql := q\<rparr>;
       if ret = SQL_FILE_NOT_EXIST then Some (rsp GFS_BUSI_RTN_FILE_NOT_EXIST, s)
       else if ret \<noteq> SQL_OK then Some (rsp GFS_BUSI_RTN_SYS_ERR, s)
       else Some (rsp GFS_BUSI_RTN_OK, s)
     }
   }"

definition rsp_delfile_bytes :: "gfs_busi_rsp_delfile \<Rightarrow> byte list" where
  "rsp_delfile_bytes r = rsp_head_bytes (fr_head r) @ bytes32 (fr_separate r)"

definition gfs_busi_delete_file_tobuf ::
  "'w env \<Rightarrow> addr \<Rightarrow> gfs_busi_rsp_delfile \<Rightarrow> gfs_busi \<Rightarrow> 'w ns \<Rightarrow> (gfs_busi \<times> 'w ns) option" where
  "gfs_busi_delete_file_tobuf E c rsp b s = do {
     let n = unat (ntohl (r_len (fr_head rsp)));
     let (a, s) = ns_malloc c (of_nat n) s;
     if a = NULL then Some (b\<lparr>b_sbuf := full_buf [] n\<rparr>, s)
     else do {
       bs \<leftarrow> ldbytes n (rsp_delfile_bytes rsp) 0;
       Some (b\<lparr>b_sbuf := full_buf bs n, a_sbuf := a\<rparr>, s)
     }
   }"

section \<open>Size query\<close>

definition gfs_busi_getfsize_parse ::
  "'w env \<Rightarrow> byte list \<Rightarrow> 'w ns \<Rightarrow> (gfs_busi_rsp_getfsize + gfs_busi_req_getfsize) option" where
  "gfs_busi_getfsize_parse E img s = do {
     h \<leftarrow> cast_head img;
     let h = h\<lparr>h_len := ntohl (h_len h)\<rparr>;
     if h_len h \<noteq> 36 then
       Some (Inl \<lparr>gr_head = rsp_head 36 h GFS_BUSI_RTN_MSG_FORMAT_ERR, gr_fsize = of_bytes64 (junk E s 24 32),
                  gr_bsize = of_bytes32 (junk E s 32 36)\<rparr>)
     else do {
       hash \<leftarrow> ldbytes 16 img 16;
       separate \<leftarrow> ld32 img 32;
       Some (Inr \<lparr>gq_head = h\<lparr>h_encrypt := ntohl (h_encrypt h)\<rparr>, gq_hash = hash, gq_separate = ntohl separate\<rparr>)
     }
   }"

definition gfs_busi_getfsize_handle ::
  "'w env \<Rightarrow> gfs_busi_req_getfsize \<Rightarrow> 'w ns \<Rightarrow> (gfs_busi_rsp_getfsize \<times> 'w ns) option" where
  "gfs_busi_getfsize_handle E req s = do {
     let rsp = (\<lambda>rtn fsize. \<lparr>gr_head = rsp_head 36 (gq_head req) rtn, gr_fsize = htonll fsize,
                             gr_bsize = htonl (g_block_size s)\<rparr>);
     (_, hash) \<leftarrow> gfs_hextostr (gq_hash req) 16;
     ((ret, fsize), q) \<leftarrow> gfs_mysql_getfsize (db E) hash 0 (sql s);
     let s = s\<lparr>sql := q\<rparr>;
     if ret \<noteq> SQL_OK then Some (rsp GFS_BUSI_RTN_FILE_NOT_EXIST 0, s)
     else Some (rsp GFS_BUSI_RTN_OK fsize, s)
   }"

definition rsp_getfsize_bytes :: "gfs_busi_rsp_getfsize \<Rightarrow> byte list" where
  "rsp_getfsize_bytes r =
     rsp_head_bytes (gr_head r) @ bytes64 (gr_fsize r) @ bytes32 (gr_bsize r) @ [0, 0, 0, 0]"

text \<open>
  As for the login, the size passed to the allocator is the length in network order; the buffer is
  the part of that block that is written.
\<close>

definition gfs_busi_getfsize_tobuf ::
  "'w env \<Rightarrow> addr \<Rightarrow> gfs_busi_rsp_getfsize \<Rightarrow> gfs_busi \<Rightarrow> 'w ns \<Rightarrow> (gfs_busi \<times> 'w ns) option" where
  "gfs_busi_getfsize_tobuf E c rsp b s = do {
     let n = unat (ntohl (r_len (gr_head rsp)));
     let (a, s) = ns_malloc c (r_len (gr_head rsp)) s;
     if a = NULL then Some (b\<lparr>b_sbuf := full_buf [] n\<rparr>, s)
     else do {
       let bs = rsp_getfsize_bytes rsp;
       if length bs > unat (r_len (gr_head rsp)) then None
       else Some (b\<lparr>b_sbuf := full_buf bs n, a_sbuf := a\<rparr>, s)
     }
   }"

end
