(* ===== verification/Handle.thy ===== *)
theory Handle
  imports Busi_ds Busi_file
begin

text \<open>
  The dispatch of a packet to its message functions (\<open>gfs_busi_handle\<close> of \<open>busi/gfs_busi.c\<close>), the event
  handlers of a connection (\<open>core/gfs_handle.c\<close>), and accepting a connection (\<open>net/gfs_net_tcp.c\<close>).

  \<open>gfs_busi_handle\<close> sends through \<open>gfs_handle_tcp_send\<close>, which calls \<open>c->handle\<close>, that is
  \<open>gfs_handle_tcp_parse\<close>, when the connection has a write event pending, and that calls
  \<open>gfs_busi_handle\<close>. The functions take the next one as an argument and \<open>tcp_parse\<close> ties the knot for a
  nesting depth; the write event is cleared before the handler is called, so that a depth of two is
  never exhausted.
\<close>

section \<open>Dispatch\<close>

definition busi_switch :: "'w env \<Rightarrow> addr \<Rightarrow> gfs_busi \<Rightarrow> 'w ns \<Rightarrow> (gfs_busi \<times> 'w ns) option" where
  "busi_switch E c b s =
     (if b_type b = 1 then do {
        r \<leftarrow> gfs_busi_login_parse (b_img b) s;
        case r of
          Inl rsp \<Rightarrow> gfs_busi_login_tobuf E c rsp b s
        | Inr req \<Rightarrow> do { (rsp, s) \<leftarrow> gfs_busi_login_handle E c req s; gfs_busi_login_tobuf E c rsp b s }
      }
      else if b_type b = 2 then do {
        r \<leftarrow> gfs_busi_upload_parse (b_img b);
        case r of
          Inl rsp \<Rightarrow> gfs_busi_upload_tobuf E c rsp b s
        | Inr req \<Rightarrow> do { (rsp, s) \<leftarrow> gfs_busi_upload_handle E c req s; gfs_busi_upload_tobuf E c rsp b s }
      }
      else if b_type b = 3 then do {
        r \<leftarrow> gfs_busi_download_parse E (b_img b) s;
        case r of
          Inl rsp \<Rightarrow> gfs_busi_download_tobuf E c rsp (NULL, []) b s
        | Inr req \<Rightarrow> do {
            (rsp, data, s) \<leftarrow> gfs_busi_download_handle E c req s;
            gfs_busi_download_tobuf E c rsp data b s
          }
      }
      else if b_type b = 4 then do {
        r \<leftarrow> gfs_busi_delete_file_parse (b_img b);
        case r of
          Inl rsp \<Rightarrow> gfs_busi_delete_file_tobuf E c rsp b s
        | Inr req \<Rightarrow> do { (rsp, s) \<leftarrow> gfs_busi_delete_file_handle E req s; gfs_busi_delete_file_tobuf E c rsp b s }
      }
      else if b_type b = 6 then do {
        r \<leftarrow> gfs_busi_delete_block_parse (b_img b);
        case r of
          Inl _ \<Rightarrow> Some (gfs_busi_delete_block_tobuf b, s)
        | Inr req \<Rightarrow> do { s \<leftarrow> gfs_busi_delete_block_handle E c req s; Some (gfs_busi_delete_block_tobuf b, s) }
      }
      else if b_type b = 8 then do {
        r \<leftarrow> gfs_busi_copy_block_parse (b_img b);
        case r of
          Inl _ \<Rightarrow> Some (gfs_busi_copy_block_tobuf b, s)
        | Inr req \<Rightarrow> do { (_, s) \<leftarrow> gfs_busi_copy_block_handle E c req s; Some (gfs_busi_copy_block_tobuf b, s) }
      }
      else if b_type b = 9 then do {
        r \<leftarrow> gfs_busi_heartbeat_parse (b_img b);
        case r of
          Inl _ \<Rightarrow> Some (gfs_busi_heartbeat_tobuf b, s)
        | Inr req \<Rightarrow> Some (gfs_busi_heartbeat_tobuf b, gfs_busi_heartbeat_handle c req s)
      }
      else do {
        r \<leftarrow> gfs_busi_getfsize_parse E (b_img b) s;
        case r of
          Inl rsp \<Rightarrow> gfs_busi_getfsize_tobuf E c rsp b s
        | Inr req \<Rightarrow> do { (rsp, s) \<leftarrow> gfs_busi_getfsize_handle E req s; gfs_busi_getfsize_tobuf E c rsp b s }
      })"

text \<open>
  The send loop. The business object lives in the pool of the connection, so that reading it after the
  connection was closed, which resets the pool, is undefined.
\<close>

partial_function (option) busi_send_loop ::
  "(addr \<Rightarrow> 'w ns \<Rightarrow> (int \<times> 'w ns) option) \<Rightarrow> addr \<Rightarrow> gfs_busi \<Rightarrow> 'w ns \<Rightarrow> (gfs_busi \<times> 'w ns) option" where
  [code]: "busi_send_loop send c b s =
     (if a_busi b \<notin> fst ` set (mp_live (n_pool (nets s c))) then None
      else if nb_hd (b_sbuf b) < nb_pos (b_sbuf b) then do {
        (dst, src) \<leftarrow> gfs_net_memcopy (n_sbuf (nets s c)) (b_sbuf b);
        (_, s) \<leftarrow> send c (upd_net c (\<lambda>n. n\<lparr>n_sbuf := dst\<rparr>) s);
        busi_send_loop send c (b\<lparr>b_sbuf := src\<rparr>) s
      }
      else Some (b, s))"

definition gfs_busi_handle ::
  "'w env \<Rightarrow> (addr \<Rightarrow> 'w ns \<Rightarrow> (int \<times> 'w ns) option) \<Rightarrow> addr \<Rightarrow> byte list \<Rightarrow> 'w ns \<Rightarrow> (int \<times> 'w ns) option" where
  "gfs_busi_handle E send c data s = do {
     (b, s) \<leftarrow> gfs_busi_create E c data s;
     case b of
       None \<Rightarrow> Some (GFS_ERR, s)
     | Some b \<Rightarrow>
         if b_type b \<notin> {1, 2, 3, 4, 6, 8, 9, 10} then do {
           s \<leftarrow> gfs_busi_destory c b s;
           Some (GFS_OK, s)
         }
         else do {
           (b, s) \<leftarrow> busi_switch E c b s;
           (b, s) \<leftarrow> busi_send_loop send c b s;
           s \<leftarrow> gfs_busi_destory c b s;
           Some (GFS_OK, s)
         }
   }"

section \<open>Event handlers of a connection\<close>

definition gfs_handle_tcp_close :: "'w env \<Rightarrow> addr \<Rightarrow> 'w ns \<Rightarrow> (int \<times> 'w ns) option" where
  "gfs_handle_tcp_close E c s = do {
     (_, s) \<leftarrow> gfs_net_close E c s;
     Some (GFS_OK, s)
   }"

definition set_ready :: "addr \<Rightarrow> (u32 \<Rightarrow> u32) \<Rightarrow> 'w ns \<Rightarrow> 'w ns" where
  "set_ready c f s = upd_net c (n_ev_update (\<lambda>ev. ev\<lparr>ev_ready := f (ev_ready ev)\<rparr>)) s"

definition gfs_handle_tcp_send ::
  "'w env \<Rightarrow> (addr \<Rightarrow> 'w ns \<Rightarrow> (int \<times> 'w ns) option) \<Rightarrow> addr \<Rightarrow> 'w ns \<Rightarrow> (int \<times> 'w ns) option" where
  "gfs_handle_tcp_send E handle c s = do {
     (rtn, s) \<leftarrow> gfs_net_tcp_send E c s;
     s \<leftarrow> (if rtn = GFS_NET_CLOSE then do {
            (_, s) \<leftarrow> gfs_handle_tcp_close E c s;
            Some s
          }
          else if rtn = GFS_NET_AGAIN then do {
            (_, s) \<leftarrow> gfs_event_add E c (GFS_EVENT_WRITE OR GFS_EVENT_ET)
                       (set_ready c (\<lambda>r. r AND NOT GFS_NET_READY) s);
            Some s
          }
          else if rtn = GFS_OK \<and> ev_ready (n_ev (nets s c)) AND GFS_NET_READY = 0 then do {
            (_, s) \<leftarrow> gfs_event_add E c (GFS_EVENT_READ OR GFS_EVENT_ET)
                       (set_ready c (\<lambda>r. r OR GFS_NET_READY) s);
            Some s
          }
          else Some s);
     s \<leftarrow> (if ev_ready (n_ev (nets s c)) AND GFS_EVENT_WRITE \<noteq> 0 then
            if n_handle (nets s c) then do {
              (_, s) \<leftarrow> handle c (set_ready c (\<lambda>r. r AND NOT GFS_EVENT_WRITE) s);
              Some s
            }
            else None
          else Some s);
     sbuf \<leftarrow> compact (n_sbuf (nets s c));
     Some (rtn, upd_net c (\<lambda>n. n\<lparr>n_sbuf := sbuf\<rparr>) s)
   }"

text \<open>The packet loop; the boolean is whether it was left by the \<open>break\<close>.\<close>

partial_function (option) parse_loop ::
  "'w env \<Rightarrow> (addr \<Rightarrow> 'w ns \<Rightarrow> (int \<times> 'w ns) option) \<Rightarrow> addr \<Rightarrow> 'w ns \<Rightarrow> (bool \<times> 'w ns) option" where
  [code]: "parse_loop E send c s = do {
     (p, rtn) \<leftarrow> gfs_net_packet_parse_tcp (n_rbuf (nets s c));
     let rb = n_rbuf (nets s c);
     let s = upd_net c (n_rbuf_update (\<lambda>b. b\<lparr>nb_hd := nat (int (nb_hd b) + rtn)\<rparr>)) s;
     case p of
       None \<Rightarrow> Some (True, s)
     | Some x \<Rightarrow> do {
         data \<leftarrow> ldbytes (snd x) (nb_data rb) (fst x);
         (ret, s) \<leftarrow> gfs_busi_handle E send c data s;
         if ret \<noteq> GFS_OK then Some (False, s) else parse_loop E send c s
       }
   }"

definition parse_end :: "addr \<Rightarrow> 'w ns \<Rightarrow> 'w ns option" where
  "parse_end c s =
     (let rb = n_rbuf (nets s c) in
      if nb_hd rb > nb_pos rb \<or> nb_pos rb > nb_len rb \<or> nb_hd rb > nb_len rb
      then Some (upd_net c (n_rbuf_update (\<lambda>b. b\<lparr>nb_hd := 0, nb_pos := 0\<rparr>)) s)
      else do {
        rb \<leftarrow> compact rb;
        Some (upd_net c (\<lambda>n. n\<lparr>n_rbuf := rb\<rparr>) s)
      })"

fun tcp_parse :: "'w env \<Rightarrow> nat \<Rightarrow> addr \<Rightarrow> 'w ns \<Rightarrow> (int \<times> 'w ns) option" where
  "tcp_parse E 0 c s = None"
| "tcp_parse E (Suc n) c s = do {
     (brk, s) \<leftarrow> parse_loop E (gfs_handle_tcp_send E (tcp_parse E n)) c s;
     if brk then do {
       s \<leftarrow> parse_end c s;
       Some (GFS_OK, s)
     }
     else Some (GFS_OK, s)
   }"

definition gfs_handle_tcp_parse :: "'w env \<Rightarrow> addr \<Rightarrow> 'w ns \<Rightarrow> (int \<times> 'w ns) option" where
  "gfs_handle_tcp_parse E = tcp_parse E 2"

text \<open>\<open>gfs_handle_tcp_send\<close> with the handler that \<open>gfs_handle_tcp\<close> installs.\<close>

definition tcp_send :: "'w env \<Rightarrow> addr \<Rightarrow> 'w ns \<Rightarrow> (int \<times> 'w ns) option" where
  "tcp_send E = gfs_handle_tcp_send E (gfs_handle_tcp_parse E)"

definition gfs_handle_tcp_recv :: "'w env \<Rightarrow> addr \<Rightarrow> 'w ns \<Rightarrow> (int \<times> 'w ns) option" where
  "gfs_handle_tcp_recv E c s = do {
     (rtn, s) \<leftarrow> gfs_net_tcp_recv E c s;
     (_, s) \<leftarrow> (if rtn = GFS_NET_CLOSE then gfs_handle_tcp_close E c s else gfs_handle_tcp_parse E c s);
     Some (rtn, s)
   }"

definition gfs_handle_tcp :: "'w env \<Rightarrow> addr \<Rightarrow> 'w ns \<Rightarrow> (int \<times> 'w ns) option" where
  "gfs_handle_tcp E c s = do {
     let s = upd_net c (\<lambda>n. n\<lparr>n_ev := (n_ev n)\<lparr>ev_ready := GFS_NET_READY, ev_isgfs := False, ev_loop := True\<rparr>,
                              n_handle := True\<rparr>) s;
     (_, s) \<leftarrow> gfs_event_add E c (GFS_EVENT_READ OR GFS_EVENT_ET) s;
     Some (GFS_OK, s)
   }"

text \<open>\<open>gfs_handle_init\<close>: the event of the listening socket, which is not the event of a connection.\<close>

definition gfs_handle_init :: "'w env \<Rightarrow> 'w ns \<Rightarrow> int \<times> 'w ns" where
  "gfs_handle_init E s =
     (let ev = g_ser_ev s;
          op = (if ev_flag ev = 0 then EPOLL_CTL_ADD else EPOLL_CTL_MOD);
          events = epoll_events GFS_EVENT_READ;
          s = s\<lparr>g_ser_ev := \<lparr>ev_flag = events, ev_ready = GFS_NET_READY, ev_isgfs = True, ev_loop = True\<rparr>\<rparr>;
          (ok, w) = os_epoll_ctl E op (g_ser_fd s) events (world s)
      in (GFS_OK, set_world w s))"

section \<open>Accepting connections\<close>

definition GFS_NET_LOOP_UNUSED :: int where "GFS_NET_LOOP_UNUSED = 143"

partial_function (option) gfs_net_tcp_accept :: "'w env \<Rightarrow> 'w ns \<Rightarrow> (int \<times> 'w ns) option" where
  [code]: "gfs_net_tcp_accept E s =
     (let (r, w) = os_accept E (g_ser_fd s) (world s);
          s = set_world w s
      in case r of
           AcceptErr e \<Rightarrow>
             if e = EAGAIN then Some (GFS_NET_AGAIN, s)
             else if e = EINTR \<or> e = ECONNABORTED then gfs_net_tcp_accept E s
             else Some (GFS_NFD_ERR, s)
         | Accepted fd sin_addr sin_port \<Rightarrow>
             if g_client_num s \<ge> g_max_num s
             then gfs_net_tcp_accept E (set_world (os_close E fd (world s)) s)
             else do {
               let s = snd (gfs_net_fd_noblock E fd s);
               (c, s) \<leftarrow> gfs_net_node_get E fd s;
               if c = NULL then Some (GFS_NET_LOOP_UNUSED, s)
               else do {
                 let s = upd_net c (\<lambda>n. n\<lparr>n_sin_addr := sin_addr, n_sin_port := sin_port\<rparr>) s;
                 let s = s\<lparr>g_client_num := g_client_num s + 1\<rparr>;
                 (_, s) \<leftarrow> gfs_handle_tcp E c s;
                 gfs_net_tcp_accept E s
               }
             })"

end
