(* ===== verification/Notice.thy ===== *)
theory Notice
  imports Handle
begin

text \<open>
  \<open>busi/gfs_busi_notice.c\<close>: the periodic job that asks the database which blocks have too few or too
  many copies and tells the data servers to copy or to delete them, and the event loop
  (\<open>event/gfs_event.c\<close>) that runs the timers and the connections.
\<close>

section \<open>Messages to the data servers\<close>

partial_function (option) notice_send_loop ::
  "'w env \<Rightarrow> addr \<Rightarrow> gfs_net_buf \<Rightarrow> 'w ns \<Rightarrow> 'w ns option" where
  [code]: "notice_send_loop E net buf s =
     (if nb_hd buf < nb_pos buf then do {
        (dst, src) \<leftarrow> gfs_net_memcopy (n_sbuf (nets s net)) buf;
        (_, s) \<leftarrow> tcp_send E net (upd_net net (\<lambda>n. n\<lparr>n_sbuf := dst\<rparr>) s);
        notice_send_loop E net src s
      }
      else Some s)"

definition notice_head :: "'w env \<Rightarrow> 'w ns \<Rightarrow> u32 \<Rightarrow> u32 \<Rightarrow> u64 \<Rightarrow> u32 \<Rightarrow> byte list" where
  "notice_head E s len type fid bindex =
     bytes32 (htonl len) @ bytes32 (htonl (of_int (os_time E (world s)))) @ bytes32 (htonl type) @ bytes32 (htonl 0)
     @ bytes64 (htonll fid) @ bytes32 (htonl bindex)"

definition gfs_busi_notice_delete_block ::
  "'w env \<Rightarrow> u32 \<Rightarrow> u64 \<Rightarrow> u32 \<Rightarrow> 'w ns \<Rightarrow> (int \<times> 'w ns) option" where
  "gfs_busi_notice_delete_block E dsid fid bindex s = do {
     net \<leftarrow> gfs_net_map_get dsid (dsmap s);
     if net = NULL then Some (GFS_BUSI_ERR, s)
     else do {
       (ret, q) \<leftarrow> gfs_mysql_set_deling (db E) fid bindex dsid (sql s);
       let s = s\<lparr>sql := q\<rparr>;
       if ret \<noteq> SQL_OK then Some (GFS_BUSI_ERR, s)
       else do {
         let msg = notice_head E s 32 5 fid bindex @ bytes32 (htonl 0);
         s \<leftarrow> notice_send_loop E net (full_buf msg 32) s;
         Some (GFS_OK, s)
       }
     }
   }"

text \<open>The words 8 to 10 and 13 to 15 of the message are not assigned.\<close>

definition gfs_busi_notice_copy_block ::
  "'w env \<Rightarrow> u32 \<Rightarrow> addr \<Rightarrow> u64 \<Rightarrow> u32 \<Rightarrow> 'w ns \<Rightarrow> (int \<times> 'w ns) option" where
  "gfs_busi_notice_copy_block E dsid_src c_dst fid bindex s = do {
     net \<leftarrow> gfs_net_map_get dsid_src (dsmap s);
     if net = NULL then Some (GFS_BUSI_ERR, s)
     else do {
       let msg = notice_head E s 72 7 fid bindex
           @ bytes32 (n_sin_addr (nets s net)) @ junk E s 32 44 @ bytes32 (htonl (u_port (n_user (nets s net))))
           @ bytes32 (n_sin_addr (nets s c_dst)) @ junk E s 52 64 @ bytes32 (htonl (u_port (n_user (nets s c_dst))))
           @ bytes32 (htonl 0);
       s \<leftarrow> notice_send_loop E net (full_buf msg 72) s;
       Some (GFS_OK, s)
     }
   }"

section \<open>Grouping the blocks\<close>

record dsblist =
  g_fid :: u64
  g_bindex :: u32
  g_dsid :: "u32 list"

definition MAX_COPIES :: nat where "MAX_COPIES = 10"

text \<open>
  The inner loops of the two checks: append the data server to the group of its block, or open a new
  group. A group holds the ids of at most \<open>MAX_COPIES\<close> data servers, a further one is written past the
  array.
\<close>

fun group_add :: "gfs_sql_block \<Rightarrow> dsblist list \<Rightarrow> dsblist list option" where
  "group_add b [] = Some [\<lparr>g_fid = sb_fid b, g_bindex = sb_bindex b, g_dsid = [sb_dsid b]\<rparr>]"
| "group_add b (g # gs) =
     (if sb_fid b = g_fid g \<and> sb_bindex b = g_bindex g then
        if length (g_dsid g) < MAX_COPIES then Some (g\<lparr>g_dsid := g_dsid g @ [sb_dsid b]\<rparr> # gs) else None
      else do {
        gs \<leftarrow> group_add b gs;
        Some (g # gs)
      })"

fun group_blocks :: "gfs_sql_block list \<Rightarrow> dsblist list \<Rightarrow> dsblist list option" where
  "group_blocks [] gs = Some gs"
| "group_blocks (b # bs) gs = do {
     gs \<leftarrow> group_add b gs;
     group_blocks bs gs
   }"

section \<open>The checks\<close>

fun delete_all :: "'w env \<Rightarrow> (u32 \<times> u64 \<times> u32) list \<Rightarrow> 'w ns \<Rightarrow> 'w ns option" where
  "delete_all E [] s = Some s"
| "delete_all E ((dsid, fid, bindex) # xs) s = do {
     (_, s) \<leftarrow> gfs_busi_notice_delete_block E dsid fid bindex s;
     delete_all E xs s
   }"

text \<open>
  The last loop of \<open>gfs_busi_check_del_block\<close>: \<open>num\<close> is an unsigned difference, and the ids past the
  end of the group are not initialised.
\<close>

fun delete_surplus :: "'w env \<Rightarrow> dsblist list \<Rightarrow> 'w ns \<Rightarrow> 'w ns option" where
  "delete_surplus E [] s = Some s"
| "delete_surplus E (g # gs) s = do {
     let num = (of_nat (length (g_dsid g)) - g_copies s :: u32);
     if unat num > length (g_dsid g) then None
     else do {
       s \<leftarrow> delete_all E (map (\<lambda>d. (d, g_fid g, g_bindex g)) (take (unat num) (g_dsid g))) s;
       delete_surplus E gs s
     }
   }"

definition gfs_busi_check_del_block :: "'w env \<Rightarrow> 'w ns \<Rightarrow> (int \<times> 'w ns) option" where
  "gfs_busi_check_del_block E s = do {
     ((ret, blist), q) \<leftarrow> gfs_mysql_get_delblock (db E) 50 0 (g_copies s) (sql s);
     let s = s\<lparr>sql := q\<rparr>;
     if ret \<noteq> SQL_OK \<or> length blist < 1 then Some (GFS_ERR, s)
     else do {
       s \<leftarrow> delete_all E (map (\<lambda>b. (sb_dsid b, sb_fid b, sb_bindex b)) blist) s;
       ((ret, blist), q) \<leftarrow> gfs_mysql_get_delblock (db E) 50 1 (g_copies s) (sql s);
       let s = s\<lparr>sql := q\<rparr>;
       if ret \<noteq> SQL_OK \<or> length blist < 1 then Some (GFS_ERR, s)
       else do {
         gs \<leftarrow> group_blocks blist [];
         s \<leftarrow> delete_surplus E gs s;
         Some (GFS_OK, s)
       }
     }
   }"

text \<open>\<open>num\<close> copies are missing; the data servers that already have the block are passed over.\<close>

fun cpys_loop :: "'w env \<Rightarrow> dsblist \<Rightarrow> addr list \<Rightarrow> int \<Rightarrow> 'w ns \<Rightarrow> 'w ns option" where
  "cpys_loop E dsb [] num s = Some s"
| "cpys_loop E dsb (net # pnet) num s =
     (if num < 1 then Some s
      else if u_dsid (n_user (nets s net)) \<in> set (g_dsid dsb) then cpys_loop E dsb pnet num s
      else do {
        (_, s) \<leftarrow> gfs_busi_notice_copy_block E (hd (g_dsid dsb)) net (g_fid dsb) (g_bindex dsb) s;
        cpys_loop E dsb pnet (num - 1) s
      })"

definition gfs_busi_cpys_handle :: "'w env \<Rightarrow> dsblist \<Rightarrow> u32 \<Rightarrow> addr list \<Rightarrow> 'w ns \<Rightarrow> 'w ns option" where
  "gfs_busi_cpys_handle E dsb copies pnet s =
     cpys_loop E dsb pnet (sint (copies - of_nat (length (g_dsid dsb)))) s"

fun cpys_all :: "'w env \<Rightarrow> dsblist list \<Rightarrow> addr list \<Rightarrow> 'w ns \<Rightarrow> 'w ns option" where
  "cpys_all E [] pnet s = Some s"
| "cpys_all E (g # gs) pnet s = do {
     s \<leftarrow> gfs_busi_cpys_handle E g (g_copies s) pnet s;
     cpys_all E gs pnet s
   }"

definition gfs_busi_check_cpy_block :: "'w env \<Rightarrow> 'w ns \<Rightarrow> (int \<times> 'w ns) option" where
  "gfs_busi_check_cpy_block E s = do {
     ((ret, blist), q) \<leftarrow> gfs_mysql_get_cpyblock (db E) 50 (g_copies s) (sql s);
     let s = s\<lparr>sql := q\<rparr>;
     if ret \<noteq> SQL_OK \<or> length blist < 1 then Some (GFS_ERR, s)
     else do {
       (ret, pnet, m) \<leftarrow> gfs_net_map_gettopn (os_raw E (world s)) (os_time E (world s)) 10 (dsmap s);
       let s = s\<lparr>dsmap := m\<rparr>;
       if ret \<noteq> GFS_OK \<or> length pnet < 2 then Some (GFS_ERR, s)
       else do {
         gs \<leftarrow> group_blocks blist [];
         s \<leftarrow> cpys_all E gs pnet s;
         Some (GFS_OK, s)
       }
     }
   }"

definition gfs_busi_notice_handle :: "'w env \<Rightarrow> 'w ns \<Rightarrow> (int \<times> 'w ns) option" where
  "gfs_busi_notice_handle E s = do {
     (_, s) \<leftarrow> gfs_busi_check_cpy_block E s;
     (_, s) \<leftarrow> gfs_busi_check_del_block E s;
     Some (GFS_OK, s)
   }"

definition gfs_busi_init :: "'w env \<Rightarrow> 'w ns \<Rightarrow> (int \<times> 'w ns) option" where
  "gfs_busi_init E s = do {
     let ts = gfs_timer_set busi_timer 3000000 (-1) gfs_busi_notice NULL (os_mstime E (world s)) (tloop s);
     (_, ts) \<leftarrow> gfs_timer_add busi_timer ts;
     Some (GFS_OK, s\<lparr>tloop := ts\<rparr>)
   }"

section \<open>The event loop\<close>

definition GFS_EVENT_NOEVENTS :: int where "GFS_EVENT_NOEVENTS = 130"
definition GFS_EVENT_EPOLL_WAIT_INTR :: int where "GFS_EVENT_EPOLL_WAIT_INTR = 131"

fun timer_call :: "'w env \<Rightarrow> timer_fn \<Rightarrow> addr \<Rightarrow> 'w ns \<Rightarrow> 'w ns option" where
  "timer_call E gfs_net_timer c s = map_option snd (gfs_net_timer_handle E c s)"
| "timer_call E gfs_busi_notice c s = map_option snd (gfs_busi_notice_handle E s)"

definition run_timers :: "'w env \<Rightarrow> 'w ns \<Rightarrow> 'w ns option" where
  "run_timers E s =
     gfs_timer_loop_run tloop (\<lambda>ts s. s\<lparr>tloop := ts\<rparr>) (timer_call E) (ucast (os_mstime E (world s))) s"

text \<open>
  \<open>gfs_event_delay_run\<close> from the queue node \<open>q\<close>. The successor of \<open>q\<close> is read after the handlers ran
  and after \<open>q\<close> was removed.
\<close>

partial_function (option) delay_run :: "'w env \<Rightarrow> addr \<Rightarrow> 'w ns \<Rightarrow> 'w ns option" where
  [code]: "delay_run E q s =
     (if q = delay then Some s
      else if ev_ready (n_ev (nets s q)) AND GFS_NET_READY \<noteq> 0 then do {
        (_, s) \<leftarrow> (if ev_ready (n_ev (nets s q)) AND GFS_EVENT_WRITE \<noteq> 0 then tcp_send E q s else Some (GFS_OK, s));
        if ev_ready (n_ev (nets s q)) AND GFS_EVENT_READ \<noteq> 0 then do {
          (rtn, s) \<leftarrow> gfs_handle_tcp_recv E q s;
          if rtn = GFS_NET_OUTOF_MEMORY then delay_run E (q_next (d_links s) q) s
          else do {
            let s = (if rtn = GFS_NET_AGAIN then set_ready q (\<lambda>r. r AND NOT GFS_EVENT_READ) s else s);
            let s = s\<lparr>d_links := gfs_queue_remove q (d_links s)\<rparr>;
            delay_run E (q_next (d_links s) q) s
          }
        }
        else do {
          let s = s\<lparr>d_links := gfs_queue_remove q (d_links s)\<rparr>;
          delay_run E (q_next (d_links s) q) s
        }
      }
      else delay_run E (q_next (d_links s) q) s)"

definition gfs_event_delay_run :: "'w env \<Rightarrow> 'w ns \<Rightarrow> 'w ns option" where
  "gfs_event_delay_run E s = delay_run E (q_next (d_links s) delay) s"

text \<open>
  The handling of one ready event. An error event of the listening socket is passed to
  \<open>gfs_handle_tcp_close\<close>, which takes the listening structure for a connection.
\<close>

definition event_one :: "'w env \<Rightarrow> addr \<times> u32 \<Rightarrow> 'w ns \<Rightarrow> 'w ns option" where
  "event_one E e s =
     (let (ev, revents) = e in
      if revents AND (EPOLLERR OR EPOLLHUP OR EPOLLRDHUP) \<noteq> 0
      then if ev = ser_ev then None else map_option snd (gfs_handle_tcp_close E ev s)
      else if ev = ser_ev then map_option snd (gfs_net_tcp_accept E s)
      else let s = (if ev_ready (n_ev (nets s ev)) AND GFS_EVENT_READ = 0
                    then s\<lparr>d_links := gfs_queue_insert_tail delay ev (d_links s)\<rparr> else s);
               s = (if revents AND EPOLLIN \<noteq> 0 then set_ready ev (\<lambda>r. r OR GFS_EVENT_READ) s else s);
               s = (if revents AND EPOLLOUT \<noteq> 0 then set_ready ev (\<lambda>r. r OR GFS_EVENT_WRITE) s else s)
           in Some s)"

fun event_all :: "'w env \<Rightarrow> (addr \<times> u32) list \<Rightarrow> 'w ns \<Rightarrow> 'w ns option" where
  "event_all E [] s = Some s"
| "event_all E (e # es) s = do {
     s \<leftarrow> event_one E e s;
     event_all E es s
   }"

definition gfs_event_loop_run :: "'w env \<Rightarrow> 'w ns \<Rightarrow> (int \<times> 'w ns) option" where
  "gfs_event_loop_run E s = do {
     s \<leftarrow> run_timers E s;
     s \<leftarrow> gfs_event_delay_run E s;
     let (r, w) = os_epoll_wait E (world s);
     let s = set_world w s;
     case r of
       WaitErr e \<Rightarrow>
         if e = EBADF \<or> e = EFAULT \<or> e = EINVAL then Some (GFS_EPOLL_ERR, s)
         else if e = EINTR then Some (GFS_EVENT_EPOLL_WAIT_INTR, s)
         else Some (GFS_OK, s)
     | Ready es \<Rightarrow>
         if es = [] then Some (GFS_EVENT_NOEVENTS, s)
         else do {
           s \<leftarrow> event_all E es s;
           Some (GFS_OK, s)
         }
   }"

section \<open>What the grouping computes\<close>

definition block_key :: "gfs_sql_block \<Rightarrow> u64 \<times> u32" where
  "block_key b = (sb_fid b, sb_bindex b)"

definition group_key :: "dsblist \<Rightarrow> u64 \<times> u32" where
  "group_key g = (g_fid g, g_bindex g)"

text \<open>The data servers the groups list for a block.\<close>

definition servers_of :: "u64 \<times> u32 \<Rightarrow> dsblist list \<Rightarrow> u32 list" where
  "servers_of k gs = concat (map g_dsid (filter (\<lambda>g. group_key g = k) gs))"

lemma servers_of_absent: "k \<notin> group_key ` set gs \<Longrightarrow> servers_of k gs = []"
  by (auto simp: servers_of_def filter_empty_conv)

lemma group_add_spec:
  assumes "distinct (map group_key gs)" and "\<forall>g \<in> set gs. g_dsid g \<noteq> []" and "length (servers_of (block_key b) gs) < MAX_COPIES"
  shows "\<exists>gs'. group_add b gs = Some gs' \<and> distinct (map group_key gs') \<and> (\<forall>g \<in> set gs'. g_dsid g \<noteq> [])
    \<and> group_key ` set gs' = insert (block_key b) (group_key ` set gs)
    \<and> (\<forall>k. servers_of k gs' = servers_of k gs @ (if k = block_key b then [sb_dsid b] else []))"
  using assms
proof (induction gs)
  case Nil
  then show ?case by (auto simp: servers_of_def block_key_def group_key_def)
next
  case (Cons g gs)
  show ?case
  proof (cases "sb_fid b = g_fid g \<and> sb_bindex b = g_bindex g")
    case True
    then have k: "group_key g = block_key b" by (simp add: group_key_def block_key_def)
    have "servers_of (block_key b) gs = []" using Cons.prems(1) k by (intro servers_of_absent) (metis distinct.simps(2) list.simps(9) list.set_map)
    then have l: "length (g_dsid g) < MAX_COPIES" using Cons.prems(3) k by (simp add: servers_of_def)
    let ?g = "g\<lparr>g_dsid := g_dsid g @ [sb_dsid b]\<rparr>"
    have k': "group_key ?g = group_key g" by (simp add: group_key_def)
    have "servers_of j (?g # gs) = servers_of j (g # gs) @ (if j = block_key b then [sb_dsid b] else [])" for j
    proof -
      have "servers_of j (x # gs) = (if group_key x = j then g_dsid x else []) @ servers_of j gs" for x
        by (simp add: servers_of_def)
      then show ?thesis using k k' \<open>servers_of (block_key b) gs = []\<close> by auto
    qed
    moreover have "group_add b (g # gs) = Some (?g # gs)" using True l by simp
    ultimately show ?thesis using Cons.prems(1,2) k k' by auto
  next
    case False
    then have k: "group_key g \<noteq> block_key b" by (auto simp: group_key_def block_key_def)
    then have "servers_of (block_key b) (g # gs) = servers_of (block_key b) gs" by (simp add: servers_of_def)
    then obtain gs' where gs': "group_add b gs = Some gs'" "distinct (map group_key gs')" "\<forall>g \<in> set gs'. g_dsid g \<noteq> []"
        "group_key ` set gs' = insert (block_key b) (group_key ` set gs)"
        "\<forall>k. servers_of k gs' = servers_of k gs @ (if k = block_key b then [sb_dsid b] else [])"
      using Cons.IH Cons.prems by auto
    have "servers_of j (g # gs') = (if group_key g = j then g_dsid g else []) @ servers_of j gs'" for j
      by (simp add: servers_of_def)
    moreover have "servers_of j (g # gs) = (if group_key g = j then g_dsid g else []) @ servers_of j gs" for j
      by (simp add: servers_of_def)
    moreover have "group_key g \<notin> group_key ` set gs'" using k Cons.prems(1) gs'(4) by auto
    ultimately show ?thesis using gs' False Cons.prems(2) by (intro exI [of _ "g # gs'"]) auto
  qed
qed

lemma group_blocks_spec:
  assumes "distinct (map group_key gs)" and "\<forall>g \<in> set gs. g_dsid g \<noteq> []"
    and "\<forall>k. length (servers_of k gs) + length (filter (\<lambda>b. block_key b = k) bs) \<le> MAX_COPIES"
  shows "\<exists>gs'. group_blocks bs gs = Some gs' \<and> distinct (map group_key gs') \<and> (\<forall>g \<in> set gs'. g_dsid g \<noteq> [])
    \<and> (\<forall>k. servers_of k gs' = servers_of k gs @ map sb_dsid (filter (\<lambda>b. block_key b = k) bs))"
  using assms
proof (induction bs arbitrary: gs)
  case Nil
  then show ?case by simp
next
  case (Cons b bs)
  have "length (servers_of (block_key b) gs) < MAX_COPIES" using Cons.prems(3) [rule_format, of "block_key b"] by simp
  then obtain gs1 where 1: "group_add b gs = Some gs1" "distinct (map group_key gs1)" "\<forall>g \<in> set gs1. g_dsid g \<noteq> []"
      "\<forall>k. servers_of k gs1 = servers_of k gs @ (if k = block_key b then [sb_dsid b] else [])"
    using group_add_spec [OF Cons.prems(1,2)] by blast
  have "\<forall>k. length (servers_of k gs1) + length (filter (\<lambda>b. block_key b = k) bs) \<le> MAX_COPIES"
  proof
    fix k
    show "length (servers_of k gs1) + length (filter (\<lambda>b. block_key b = k) bs) \<le> MAX_COPIES"
      using Cons.prems(3) [rule_format, of k] 1(4) [rule_format, of k] by (auto split: if_splits)
  qed
  from Cons.IH [OF 1(2,3) this] show ?case using 1 by auto
qed

lemma surplus_word:
  assumes "length ds < 2 ^ 32"
  shows "unat (of_nat (length ds) - copies :: u32) =
    (if unat copies \<le> length ds then length ds - unat copies else 2 ^ 32 + length ds - unat copies)"
proof (cases "unat copies \<le> length ds")
  case True
  then have "copies \<le> of_nat (length ds)" using unat_of_nat_u32 [OF assms] by (simp add: word_le_nat_alt)
  then show ?thesis using True unat_of_nat_u32 [OF assms] by (simp add: unat_sub)
next
  case False
  then have "\<not> copies \<le> of_nat (length ds)" using unat_of_nat_u32 [OF assms] by (simp add: word_le_nat_alt)
  then show ?thesis using False unat_of_nat_u32 [OF assms] by (simp add: unat_sub_if_size word_size)
qed

section \<open>Properties\<close>


definition sample_rows :: "gfs_sql_block list" where
  "sample_rows = [\<lparr>sb_bindex = 1, sb_dsid = 5, sb_fid = 9\<rparr>, \<lparr>sb_bindex = 2, sb_dsid = 5, sb_fid = 9\<rparr>,
     \<lparr>sb_bindex = 1, sb_dsid = 6, sb_fid = 9\<rparr>]"



definition sample_group :: dsblist where
  "sample_group = \<lparr>g_fid = 9, g_bindex = 1, g_dsid = [5]\<rparr>"


end
