(* ===== verification/Sending.thy ===== *)
theory Sending
  imports Notice
begin

text \<open>
  How a response leaves the server. A socket is called healthy when every send takes at least one byte
  and \<open>out\<close>, what the peer has received, grows by the bytes taken. On a healthy socket the send loop
  ends with the whole buffer sent, the response loop of \<open>gfs_busi_handle\<close> ends with the whole response
  sent, and a buffer full of well-formed packets is served packet by packet.
\<close>

section \<open>State projections\<close>

lemma world_simps [simp, gfs_simps]:
  "nets (set_world w s) = nets s" "world (set_world w s) = w" "nets (upd_net c f s) = (nets s)(c := f (nets s c))"
  "world (upd_net c f s) = world s" "set_world w (set_world w' s) = set_world w s" "set_world (world s) s = s"
  by (simp_all add: set_world_def upd_net_def)

lemma upd_net_upd_net [simp]: "upd_net c f (upd_net c g s) = upd_net c (f \<circ> g) s"
  by (simp add: upd_net_def)

lemma upd_net_world [simp]: "upd_net c f (set_world w s) = set_world w (upd_net c f s)"
  by (simp add: set_world_def upd_net_def)

lemma upd_net_id: "f (nets s c) = nets s c \<Longrightarrow> upd_net c f s = s"
  by (simp add: upd_net_def fun_upd_idem)

lemma upd_net_cong: "f (nets s c) = g (nets s c) \<Longrightarrow> upd_net c f s = upd_net c g s"
  by (simp add: upd_net_def)

section \<open>Sending a buffer\<close>

definition healthy :: "'w env \<Rightarrow> ('w \<Rightarrow> byte list) \<Rightarrow> bool" where
  "healthy E out \<longleftrightarrow> (\<forall>fd bs w. bs \<noteq> [] \<longrightarrow>
     (\<exists>k w'. os_send E fd bs w = (Sent k, w') \<and> 0 < k \<and> k \<le> length bs \<and> out w' = out w @ take k bs))"

definition set_sbuf :: "addr \<Rightarrow> gfs_net_buf \<Rightarrow> 'w ns \<Rightarrow> 'w ns" where
  "set_sbuf c b = upd_net c (\<lambda>n. n\<lparr>n_sbuf := b\<rparr>)"

lemma set_sbuf_simps [simp]:
  "n_sbuf (nets (set_sbuf c b s) c) = b" "n_fd (nets (set_sbuf c b s) c) = n_fd (nets s c)"
  "n_ev (nets (set_sbuf c b s) c) = n_ev (nets s c)" "n_pool (nets (set_sbuf c b s) c) = n_pool (nets s c)"
  "n_rbuf (nets (set_sbuf c b s) c) = n_rbuf (nets s c)"
  "world (set_sbuf c b s) = world s" "set_sbuf c b (set_sbuf c b' s) = set_sbuf c b s"
  "set_sbuf c b (set_world w s) = set_world w (set_sbuf c b s)"
  by (simp_all add: set_sbuf_def comp_def)

lemma set_world_sbuf [simp]: "set_world (world s) (set_sbuf c b s) = set_sbuf c b s"
  by (simp add: set_sbuf_def set_world_def upd_net_def)

lemma set_sbuf_same: "set_sbuf c (n_sbuf (nets s c)) s = s"
  by (simp add: set_sbuf_def upd_net_id)

lemma tcp_send_all:
  assumes E: "healthy E out" and ok: "buf_ok b"
  shows "\<exists>w. gfs_net_tcp_send E c (set_sbuf c b s) = Some (GFS_OK, set_world w (set_sbuf c (b\<lparr>nb_hd := nb_pos b\<rparr>) s))
    \<and> out w = out (world s) @ buf_bytes b"
  using ok
proof (induction "nb_pos b - nb_hd b" arbitrary: b s rule: less_induct)
  case less
  note ok = less.prems
  show ?case
  proof (cases "nb_hd b < nb_pos b")
    case False
    then have "nb_hd b = nb_pos b" "buf_bytes b = []" using ok by (auto simp: buf_ok_def buf_bytes_def)
    then have "b\<lparr>nb_hd := nb_pos b\<rparr> = b" by simp
    then show ?thesis using False \<open>buf_bytes b = []\<close>
      by (intro exI [of _ "world s"], subst gfs_net_tcp_send.simps) simp
  next
    case True
    define bs where "bs = take (nb_pos b - nb_hd b) (drop (nb_hd b) (nb_data b))"
    have ld: "ldbytes (nb_pos b - nb_hd b) (nb_data b) (nb_hd b) = Some bs"
      unfolding bs_def using ok by (intro ldbytes_Some) (auto simp: buf_ok_def)
    have bb: "buf_bytes b = bs" by (simp add: buf_bytes_def bs_def drop_take)
    have len: "length bs = nb_pos b - nb_hd b" using length_buf_bytes [OF ok] bb by simp
    then have "bs \<noteq> []" using True by auto
    then obtain k w where k: "os_send E (n_fd (nets s c)) bs (world s) = (Sent k, w)" "0 < k" "k \<le> length bs"
        "out w = out (world s) @ take k bs"
      using E unfolding healthy_def by blast
    define b' where "b' = b\<lparr>nb_hd := nb_hd b + k\<rparr>"
    have ok': "buf_ok b'" and lt: "nb_pos b' - nb_hd b' < nb_pos b - nb_hd b"
      using ok k len True by (auto simp: b'_def buf_ok_def)
    have st: "upd_net c (n_sbuf_update (\<lambda>b. b\<lparr>nb_hd := nb_hd b + k\<rparr>)) (set_sbuf c b s) = set_sbuf c b' s"
      by (simp add: set_sbuf_def comp_def b'_def)
    have "gfs_net_tcp_send E c (set_sbuf c b s) = gfs_net_tcp_send E c (set_sbuf c b' (set_world w s))"
      using True ld k(1) by (subst gfs_net_tcp_send.simps) (simp add: st)
    moreover obtain w' where "gfs_net_tcp_send E c (set_sbuf c b' (set_world w s))
        = Some (GFS_OK, set_world w' (set_sbuf c (b'\<lparr>nb_hd := nb_pos b'\<rparr>) s))" "out w' = out w @ buf_bytes b'"
      using less.hyps [OF lt ok', of "set_world w s"] by auto
    moreover have "take k bs @ buf_bytes b' = bs"
      using append_take_drop_id [of k bs] by (simp add: buf_bytes_def b'_def bb [symmetric] add.commute)
    ultimately show ?thesis using k(4) bb by (auto simp: b'_def)
  qed
qed

text \<open>A connection that can send: its event is ready and no write event is pending.\<close>

definition can_send :: "'w ns \<Rightarrow> addr \<Rightarrow> bool" where
  "can_send s c \<longleftrightarrow> ev_ready (n_ev (nets s c)) AND GFS_NET_READY \<noteq> 0
     \<and> ev_ready (n_ev (nets s c)) AND GFS_EVENT_WRITE = 0"

lemma handle_send_flush:
  assumes E: "healthy E out" and ok: "buf_ok (n_sbuf (nets s c))" and r: "can_send s c"
  shows "\<exists>w sb. gfs_handle_tcp_send E h c s = Some (GFS_OK, set_world w (set_sbuf c sb s))
    \<and> out w = out (world s) @ buf_bytes (n_sbuf (nets s c))
    \<and> buf_ok sb \<and> buf_bytes sb = [] \<and> nb_pos sb = 0 \<and> nb_hd sb = 0 \<and> nb_len sb = nb_len (n_sbuf (nets s c))"
proof -
  let ?b = "n_sbuf (nets s c)"
  obtain w where w: "gfs_net_tcp_send E c s = Some (GFS_OK, set_world w (set_sbuf c (?b\<lparr>nb_hd := nb_pos ?b\<rparr>) s))"
      "out w = out (world s) @ buf_bytes ?b"
    using tcp_send_all [OF E ok, of c s] by (auto simp: set_sbuf_same)
  have ok': "buf_ok (?b\<lparr>nb_hd := nb_pos ?b\<rparr>)" using ok by (simp add: buf_ok_def)
  obtain sb where sb: "compact (?b\<lparr>nb_hd := nb_pos ?b\<rparr>) = Some sb" "buf_ok sb" "nb_hd sb = 0" "nb_len sb = nb_len ?b"
      "buf_bytes sb = []" "nb_pos sb = 0"
    using compact_bytes [OF ok'] by (auto simp: buf_bytes_def)
  have "gfs_handle_tcp_send E h c s = Some (GFS_OK, set_world w (set_sbuf c sb s))"
    using r w(1) sb(1) unfolding gfs_handle_tcp_send_def can_send_def
    by (simp add: status_defs) (simp add: set_sbuf_def comp_def)
  then show ?thesis using w(2) sb by blast
qed

section \<open>Sending a response\<close>

lemma busi_send_all:
  assumes E: "healthy E out"
  shows "buf_ok (b_sbuf b) \<Longrightarrow> buf_ok (n_sbuf (nets s c)) \<Longrightarrow> nb_pos (n_sbuf (nets s c)) = 0 \<Longrightarrow>
    nb_len (n_sbuf (nets s c)) > 0 \<Longrightarrow> can_send s c \<Longrightarrow> a_busi b \<in> fst ` set (mp_live (n_pool (nets s c))) \<Longrightarrow>
    \<exists>w sb src. busi_send_loop (gfs_handle_tcp_send E h) c b s = Some (b\<lparr>b_sbuf := src\<rparr>, set_world w (set_sbuf c sb s))
      \<and> out w = out (world s) @ buf_bytes (b_sbuf b) \<and> buf_ok sb \<and> nb_pos sb = 0
      \<and> nb_len sb = nb_len (n_sbuf (nets s c))"
proof (induction "nb_pos (b_sbuf b) - nb_hd (b_sbuf b)" arbitrary: b s rule: less_induct)
  case less
  note ok = less.prems(1) and dok = less.prems(2) and pos = less.prems(3) and len = less.prems(4)
    and r = less.prems(5) and live = less.prems(6)
  let ?src = "b_sbuf b" and ?dst = "n_sbuf (nets s c)"
  show ?case
  proof (cases "nb_hd ?src < nb_pos ?src")
    case False
    then have "buf_bytes ?src = []" by (simp add: buf_bytes_def)
    moreover have "busi_send_loop (gfs_handle_tcp_send E h) c b s = Some (b, s)"
      using False live by (subst busi_send_loop.simps) simp
    moreover have "b = b\<lparr>b_sbuf := ?src\<rparr>" "s = set_world (world s) (set_sbuf c ?dst s)"
      by (simp_all add: set_sbuf_same)
    ultimately show ?thesis using dok pos by (metis append_Nil2)
  next
    case True
    obtain dst src where m: "gfs_net_memcopy ?dst ?src = Some (dst, src)" using memcopy_spec [OF dok ok] by blast
    note mb = memcopy_bytes [OF dok ok m]
    define s1 where "s1 = set_sbuf c dst s"
    have d0: "buf_bytes ?dst = []" using pos by (simp add: buf_bytes_def)
    have c1: "can_send s1 c" and n1: "n_sbuf (nets s1 c) = dst"
      using r by (auto simp: can_send_def s1_def)
    obtain w sb where f: "gfs_handle_tcp_send E h c s1 = Some (GFS_OK, set_world w (set_sbuf c sb s1))"
        "out w = out (world s1) @ buf_bytes dst" "buf_ok sb" "nb_pos sb = 0" "nb_len sb = nb_len dst"
      using handle_send_flush [OF E _ c1, of h] mb n1 by auto
    define s2 where "s2 = set_world w (set_sbuf c sb s)"
    have lt: "nb_pos src - nb_hd src < nb_pos ?src - nb_hd ?src"
      using mb True len pos length_buf_bytes [of src] ok by auto
    have step: "busi_send_loop (gfs_handle_tcp_send E h) c b s
        = busi_send_loop (gfs_handle_tcp_send E h) c (b\<lparr>b_sbuf := src\<rparr>) s2"
      using True live m f(1) by (subst busi_send_loop.simps) (simp add: s1_def s2_def set_sbuf_def [symmetric])
    have "\<exists>w' sb' src'. busi_send_loop (gfs_handle_tcp_send E h) c (b\<lparr>b_sbuf := src\<rparr>) s2
        = Some (b\<lparr>b_sbuf := src\<rparr>\<lparr>b_sbuf := src'\<rparr>, set_world w' (set_sbuf c sb' s2))
      \<and> out w' = out (world s2) @ buf_bytes src \<and> buf_ok sb' \<and> nb_pos sb' = 0 \<and> nb_len sb' = nb_len (n_sbuf (nets s2 c))"
      using less.hyps [of "b\<lparr>b_sbuf := src\<rparr>" s2] lt mb f r live len by (auto simp: s2_def can_send_def)
    then show ?thesis
      using f mb d0 by (fastforce simp: step s1_def s2_def)
  qed
qed

section \<open>Properties\<close>

text \<open>A socket that takes one byte per call, with the bytes received by the peer as the state of the world.\<close>

definition sample_env :: "byte list env" where
  "sample_env = \<lparr>db = sample_db, os_recv = (\<lambda>_ _ w. (RecvErr EAGAIN, w)),
     os_send = (\<lambda>_ bs w. (Sent (min 1 (length bs)), w @ take 1 bs)), os_accept = (\<lambda>_ w. (AcceptErr EAGAIN, w)),
     os_epoll_ctl = (\<lambda>_ _ _ w. (True, w)), os_epoll_wait = (\<lambda>w. (Ready [], w)), os_getfl = (\<lambda>_ w. (Some 0, w)),
     os_setfl = (\<lambda>_ _ w. (True, w)), os_reuse = (\<lambda>_ w. (True, w)), os_close = (\<lambda>_ w. w), os_mstime = (\<lambda>_. 1000000),
     os_time = (\<lambda>_. 1000), os_junk = (\<lambda>_ _. 0), os_raw = (\<lambda>_ _. (0, 0))\<rparr>"

lemma sample_healthy: "healthy sample_env (\<lambda>w. w)"
  by (auto simp: healthy_def sample_env_def min_def Suc_le_eq)

definition sample_net :: gfs_net where
  "sample_net = \<lparr>n_fd = 5, n_ev = \<lparr>ev_flag = 1, ev_ready = 8, ev_isgfs = False, ev_loop = True\<rparr>, n_sin_addr = 0x0100007f,
     n_sin_port = 99, n_user = zero_user, n_t_start = 0, n_t_end = 0, n_pool = \<lparr>mp_next = 1, mp_live = []\<rparr>,
     n_rbuf = \<lparr>nb_data = replicate 64 0, nb_len = 64, nb_pos = 0, nb_hd = 0\<rparr>,
     n_sbuf = \<lparr>nb_data = replicate 16 0, nb_len = 16, nb_pos = 0, nb_hd = 0\<rparr>, n_handle = True\<rparr>"

definition sample_ns :: "byte list ns" where
  "sample_ns = \<lparr>g_copies = 3, g_block_size = 67108864, g_max_num = 10, g_client_num = 1, g_ser_fd = 3, g_ser_ev = zero_event,
     nets = (\<lambda>_. sample_net), n_links = \<lparr>q_prev = id, q_next = id\<rparr>, net_num = 0, free_num = 0, used_num = 0,
     d_links = \<lparr>q_prev = id, q_next = id\<rparr>,
     tloop = gfs_timer_loop_create \<lparr>t_tree = m_tree sample_map, t_secs = (\<lambda>_. 0), t_times = (\<lambda>_. 0), t_now = (\<lambda>_. 0),
       t_handle = (\<lambda>_. None), t_param = (\<lambda>_. 0)\<rparr>,
     dsmap = sample_map, sql = sample_sql []\<rparr>"

text \<open>
  C10: on a socket where every send takes at least one of the bytes it is given, the loop of
  \<open>gfs_net_tcp_send\<close> ends with \<open>GFS_OK\<close>: the peer has received exactly the bytes of the send buffer, in
  order, and the buffer is empty.
\<close>

theorem send_whole_buffer:
  assumes "healthy E out" and "buf_ok (n_sbuf (nets s c))"
  shows "\<exists>s'. gfs_net_tcp_send E c s = Some (GFS_OK, s') \<and> out (world s') = out (world s) @ buf_bytes (n_sbuf (nets s c))
    \<and> buf_ok (n_sbuf (nets s' c)) \<and> buf_bytes (n_sbuf (nets s' c)) = [] \<and> n_rbuf (nets s' c) = n_rbuf (nets s c)"
proof -
  let ?b = "n_sbuf (nets s c)"
  obtain w where "gfs_net_tcp_send E c s = Some (GFS_OK, set_world w (set_sbuf c (?b\<lparr>nb_hd := nb_pos ?b\<rparr>) s))"
      "out w = out (world s) @ buf_bytes ?b"
    using tcp_send_all [OF assms, of c s] by (auto simp: set_sbuf_same)
  then show ?thesis using assms(2) by (auto simp: buf_bytes_def buf_ok_def)
qed

theorem send_whole_buffer_witness:
  "\<exists>s'. gfs_net_tcp_send sample_env 10 (set_sbuf 10 (sample_buf [1, 2, 3]) sample_ns) = Some (GFS_OK, s') \<and> world s' = [1, 2, 3]"
  using send_whole_buffer [OF sample_healthy, of "set_sbuf 10 (sample_buf [1, 2, 3]) sample_ns" 10]
  by (auto simp: sample_buf_ok sample_ns_def sample_sql_def)

text \<open>A socket that hands over at most as many bytes as asked for, and whose calls are not interrupted by signals.\<close>

definition receives :: "'w env \<Rightarrow> bool" where
  "receives E \<longleftrightarrow> (\<forall>fd n w. case os_recv E fd n w of
     (RecvData bs, _) \<Rightarrow> length bs \<le> n | (RecvErr e, _) \<Rightarrow> e \<noteq> EINTR)"

lemma recv_into_ok:
  assumes "buf_ok b" and "length bs \<le> nb_len b - nb_pos b"
  shows "buf_ok (recv_into bs b)" and "buf_bytes (recv_into bs b) = buf_bytes b @ bs"
    and "nb_pos (recv_into bs b) = nb_pos b + length bs" and "nb_len (recv_into bs b) = nb_len b"
  using assms by (auto simp: buf_ok_def recv_into_def buf_bytes_def min_def)



end
