(* ===== verification/Replies.thy ===== *)
theory Replies
  imports Sending
begin

text \<open>
  What handling a request does to the connection it came on. The part of a connection that reading
  and sending work on is its \<open>io\<close>; the message functions do not touch it. They allocate from the pool of
  the connection, and the ledger accounts for it: besides the response buffer only the block lists
  that a download does not hand over stay allocated. The response starts with its own length and with
  the identification and the type of the request, and ends with the separator word.
\<close>

section \<open>The pool of a connection\<close>

definition io :: "gfs_net \<Rightarrow> int \<times> gfs_event \<times> gfs_net_buf \<times> gfs_net_buf \<times> bool" where
  "io n = (n_fd n, n_ev n, n_rbuf n, n_sbuf n, n_handle n)"

abbreviation ledger :: "'w ns \<Rightarrow> addr \<Rightarrow> (addr \<times> u32) list" where
  "ledger s c \<equiv> mp_live (n_pool (nets s c))"

lemma io_simps [simp]:
  "io (n\<lparr>n_pool := p\<rparr>) = io n" "io (n_user_update f n) = io n" "io (n_t_end_update g n) = io n"
  by (simp_all add: io_def)

lemma io_eqD:
  "io m = io n \<Longrightarrow> n_fd m = n_fd n \<and> n_ev m = n_ev n \<and> n_rbuf m = n_rbuf n \<and> n_sbuf m = n_sbuf n \<and> n_handle m = n_handle n"
  by (simp add: io_def)

text \<open>A step of the message functions on connection \<open>c\<close>: it allocated \<open>new\<close>, and freed nothing that was live.\<close>

definition grows :: "addr \<Rightarrow> (addr \<times> u32) list \<Rightarrow> 'w ns \<Rightarrow> 'w ns \<Rightarrow> bool" where
  "grows c new s s' \<longleftrightarrow> io (nets s' c) = io (nets s c) \<and> pool_ok (n_pool (nets s' c)) \<and> ledger s' c = new @ ledger s c"

lemma growsD:
  assumes "grows c new s s'"
  shows "io (nets s' c) = io (nets s c)" and "pool_ok (n_pool (nets s' c))" and "ledger s' c = new @ ledger s c"
  using assms by (auto simp: grows_def)

lemma grows_refl: "pool_ok (n_pool (nets s c)) \<Longrightarrow> nets s' c = nets s c \<Longrightarrow> grows c [] s s'"
  by (simp add: grows_def)

lemma grows_trans: "grows c new s s' \<Longrightarrow> grows c new' s' s'' \<Longrightarrow> grows c (new' @ new) s s''"
  by (simp add: grows_def)

lemma malloc_grows:
  assumes "pool_ok (n_pool (nets s c))" and "ns_malloc c n s = (a, s')" and "n \<noteq> 0"
  shows "a \<noteq> NULL" and "grows c [(a, n)] s s'" and "sql s' = sql s" and "dsmap s' = dsmap s" and "g_copies s' = g_copies s"
  using assms pool_malloc_ok [OF assms(1), of n]
  by (auto simp: ns_malloc_def pool_malloc_def grows_def pool_ok_def split: prod.splits) (auto simp: upd_net_def)

lemma filter_live:
  assumes "pool_ok p" and "mp_live p = xs @ (a, n) # ys"
  shows "filter (\<lambda>(b, _). b \<noteq> a) (mp_live p) = xs @ ys"
proof -
  have "a \<notin> fst ` set xs" "a \<notin> fst ` set ys" using assms by (auto simp: pool_ok_def)
  then have "filter (\<lambda>(b, _). b \<noteq> a) xs = xs" "filter (\<lambda>(b, _). b \<noteq> a) ys = ys"
    by (force intro!: filter_True)+
  then show ?thesis by (simp add: assms(2))
qed

lemma free_live:
  assumes ok: "pool_ok (n_pool (nets s c))" and live: "ledger s c = xs @ (a, n) # ys"
  obtains s' where "ns_free c a s = Some s'" and "io (nets s' c) = io (nets s c)" and "pool_ok (n_pool (nets s' c))"
    and "ledger s' c = xs @ ys" and "sql s' = sql s"
proof -
  let ?p = "n_pool (nets s c)"
  have "a \<noteq> NULL" using ok live by (auto simp: pool_ok_def)
  moreover have "a \<in> fst ` set (mp_live ?p)" by (simp add: live)
  ultimately have f: "pool_free a ?p = Some (?p\<lparr>mp_live := xs @ ys\<rparr>)"
    using filter_live [OF ok live] by (simp add: pool_free_def)
  have "pool_ok (?p\<lparr>mp_live := xs @ ys\<rparr>)" using ok live by (auto simp: pool_ok_def)
  then show ?thesis using f
    by (intro that [of "upd_net c (\<lambda>x. x\<lparr>n_pool := ?p\<lparr>mp_live := xs @ ys\<rparr>\<rparr>) s"])
      (simp_all add: ns_free_def, simp add: upd_net_def)
qed

lemma free_null: "ns_free c NULL s = Some s"
  by (simp add: ns_free_def pool_free_def upd_net_id)

section \<open>The business object\<close>

text \<open>
  The object of a request whose type has a response structure: three blocks are allocated, and the
  image starts with the packet.
\<close>

lemma create_ok:
  assumes ok: "pool_ok (n_pool (nets s c))" and len: "16 \<le> length data" "length data \<le> 2048"
    and t: "ld32 data 8 = Some w" "rsp_size (ntohl w) \<noteq> 0" "1 \<le> ntohl w" "ntohl w \<le> 10"
  obtains b s' n where "gfs_busi_create E c data s = Some (Some b, s')"
    and "grows c [(a_rsh b, n), (a_rbuf b, of_nat (length data)), (a_busi b, 112)] s s'"
    and "b_type b = ntohl w" and "b_sbuf b = empty_buf" and "a_sbuf b = NULL"
    and "b_img b = data @ junk E s' (length data) (usable (length data))" and "sql s' = sql s"
    and "a_busi b \<noteq> NULL" and "a_rbuf b \<noteq> NULL" and "a_rsh b \<noteq> NULL"
proof -
  obtain x1 s1 where m1: "ns_malloc c 112 s = (x1, s1)" by fastforce
  note g1 = malloc_grows [OF ok m1, simplified]
  have l: "(of_nat (length data) :: u32) \<noteq> 0"
  proof
    assume "(of_nat (length data) :: u32) = 0"
    then have "unat (of_nat (length data) :: u32) = 0" by simp
    then show False using len by (simp add: unat_of_nat)
  qed
  obtain x2 s2 where m2: "ns_malloc c (of_nat (length data)) s1 = (x2, s2)" by fastforce
  note g2 = malloc_grows [OF growsD(2) [OF g1(2)] m2 l]
  obtain x3 s3 where m3: "ns_malloc c (rsp_size (ntohl w)) s2 = (x3, s3)" by fastforce
  note g3 = malloc_grows [OF growsD(2) [OF g2(2)] m3 t(2)]
  obtain id where i: "ld32 data 4 = Some id" using ld32_Some [of 4 data] len by auto
  have "w \<noteq> 0" using t(3) by auto
  moreover have "\<not> ntohl w > 10" using t(4) by (simp add: not_less)
  ultimately have cr: "gfs_busi_create E c data s = Some (Some \<lparr>b_type = ntohl w,
      b_img = data @ junk E s2 (length data) (usable (length data)), b_sbuf = empty_buf, a_busi = x1, a_rbuf = x2,
      a_rsh = x3, a_sbuf = NULL\<rparr>, s3)"
    using g1(1) g2(1) g3(1) m1 m2 m3 i t(1) unfolding gfs_busi_create_def
    by (simp del: bind_eq_Some_conv)
  have "junk E s2 = junk E s3" using g3(3) by (simp add: junk_def fun_eq_iff)
  then show ?thesis
    using g1 g2 g3 grows_trans [OF grows_trans [OF g1(2) g2(2)] g3(2)]
    by (intro that [OF cr]) simp_all
qed

text \<open>Destroying it frees its four blocks and nothing else.\<close>

lemma destory_ok:
  assumes ok: "pool_ok (n_pool (nets s c))"
    and live: "ledger s c = xs @ (a_rsh b, n1) # (a_rbuf b, n2) # (a_busi b, n3) # ys"
    and sb: "a_sbuf b = NULL \<and> xs = zs \<or> a_sbuf b \<noteq> NULL \<and> xs = (a_sbuf b, n) # zs"
  obtains s' where "gfs_busi_destory c b s = Some s'" and "io (nets s' c) = io (nets s c)"
    and "pool_ok (n_pool (nets s' c))" and "ledger s' c = zs @ ys" and "sql s' = sql s"
proof -
  obtain s1 where 1: "ns_free c (a_rsh b) s = Some s1" "io (nets s1 c) = io (nets s c)" "pool_ok (n_pool (nets s1 c))"
      "ledger s1 c = xs @ (a_rbuf b, n2) # (a_busi b, n3) # ys" "sql s1 = sql s"
    using free_live [OF ok live] by metis
  obtain s2 where 2: "ns_free c (a_rbuf b) s1 = Some s2" "io (nets s2 c) = io (nets s1 c)" "pool_ok (n_pool (nets s2 c))"
      "ledger s2 c = xs @ (a_busi b, n3) # ys" "sql s2 = sql s1"
    using free_live [OF 1(3,4)] by metis
  obtain s3 where 3: "ns_free c (a_sbuf b) s2 = Some s3" "io (nets s3 c) = io (nets s2 c)" "pool_ok (n_pool (nets s3 c))"
      "ledger s3 c = zs @ (a_busi b, n3) # ys" "sql s3 = sql s2"
  proof (cases "a_sbuf b = NULL")
    case True
    then show ?thesis using that [of s2] sb 2 free_null [of c s2] by auto
  next
    case False
    then have "ledger s2 c = [] @ (a_sbuf b, n) # (zs @ (a_busi b, n3) # ys)" using sb 2(4) by simp
    then show ?thesis using free_live [OF 2(3)] that by (metis append_Nil)
  qed
  obtain s4 where 4: "ns_free c (a_busi b) s3 = Some s4" "io (nets s4 c) = io (nets s3 c)" "pool_ok (n_pool (nets s4 c))"
      "ledger s4 c = zs @ ys" "sql s4 = sql s3"
    using free_live [OF 3(3,4)] by metis
  show ?thesis using 1 2 3 4 by (intro that [of s4]) (simp_all add: gfs_busi_destory_def)
qed

section \<open>The form of a response\<close>

definition replies :: "gfs_busi_req_head \<Rightarrow> byte list \<Rightarrow> bool" where
  "replies h m \<longleftrightarrow> 24 \<le> length m \<and> ld32 m 0 = Some (htonl (of_nat (length m)))
     \<and> ld32 m 4 = Some (h_id h) \<and> ld32 m 8 = Some (h_type h) \<and> ld32 m 16 = Some 0
     \<and> drop (length m - 4) m = [0, 0, 0, 0]"

lemma length_rsp_head [simp]: "length (rsp_head_bytes r) = 20"
  by (simp add: rsp_head_bytes_def)

lemma bytes32_0 [simp]: "bytes32 0 = [0, 0, 0, 0]"
  by (simp add: bytes32_def)

lemma repliesI:
  assumes "m = rsp_head_bytes r @ body @ [0, 0, 0, 0]"
    and "r_len r = htonl (of_nat (24 + length body))" and "r_id r = h_id h" "r_type r = h_type h" "r_encrypt r = 0"
  shows "replies h m"
proof -
  have "drop (length m - 4) m = drop (length (rsp_head_bytes r @ body)) ((rsp_head_bytes r @ body) @ [0, 0, 0, 0])"
    by (simp add: assms(1))
  then have "drop (length m - 4) m = [0, 0, 0, 0]" by (simp only: drop_prefix)
  then show ?thesis
    unfolding replies_def by (simp add: assms rsp_head_bytes_def) (simp add: wire_simps ld32_def htonl_def, simp add: ldbytes_def)
qed

lemma full_buf_ok: "n \<le> length bs \<Longrightarrow> buf_ok (full_buf bs n)"
  by (simp add: buf_ok_def full_buf_def)

lemma full_buf_bytes [simp]: "buf_bytes (full_buf bs n) = take n bs"
  by (simp add: buf_bytes_def full_buf_def)

text \<open>
  The business object after its message functions: the response is in the send buffer, which was
  allocated after the blocks \<open>leak\<close>, the only other ones that are left.
\<close>

definition answered ::
  "addr \<Rightarrow> gfs_busi \<Rightarrow> gfs_busi_req_head \<Rightarrow> (addr \<times> u32) list \<Rightarrow> 'w ns \<Rightarrow> gfs_busi \<Rightarrow> 'w ns \<Rightarrow> bool" where
  "answered c b h leak s b' s' \<longleftrightarrow> (\<exists>a n buf. b' = b\<lparr>b_sbuf := buf, a_sbuf := a\<rparr> \<and> a \<noteq> NULL
     \<and> grows c ((a, n) # leak) s s' \<and> buf_ok buf \<and> replies h (buf_bytes buf))"

lemma answeredI:
  assumes g: "grows c leak s s1" and m: "ns_malloc c n s1 = (a, s2)" "n \<noteq> 0"
    and "b' = b\<lparr>b_sbuf := buf, a_sbuf := a\<rparr>" "buf_ok buf" "replies h (buf_bytes buf)"
  shows "answered c b h leak s b' s2"
  using grows_trans [OF g malloc_grows(2) [OF growsD(2) [OF g] m]] malloc_grows(1) [OF growsD(2) [OF g] m] assms(4-)
  unfolding answered_def by (intro exI [of _ a] exI [of _ n] exI [of _ buf]) simp

lemma rsp_head_sel [simp]:
  "r_len (rsp_head n h rtn) = htonl n" "r_id (rsp_head n h rtn) = h_id h" "r_type (rsp_head n h rtn) = h_type h"
  "r_rtn (rsp_head n h rtn) = htonl rtn" "r_encrypt (rsp_head n h rtn) = 0"
  by (simp_all add: rsp_head_def)

section \<open>Login\<close>

lemma login_tobuf_answered:
  assumes g: "grows c leak s s1" and t: "gfs_busi_login_tobuf E c rsp b s1 = Some (b', s')"
    and r: "lr_head rsp = rsp_head 28 h rtn" "lr_separate rsp = 0"
  shows "answered c b h leak s b' s'"
proof -
  obtain a s2 where m: "ns_malloc c (htonl 28) s1 = (a, s2)" by fastforce
  note g2 = malloc_grows [OF growsD(2) [OF g] m]
  have len: "length (rsp_login_bytes rsp) = 28" by (simp add: rsp_login_bytes_def)
  have "b' = b\<lparr>b_sbuf := full_buf (rsp_login_bytes rsp) 28, a_sbuf := a\<rparr>" "s' = s2"
    using t m g2(1) len unfolding gfs_busi_login_tobuf_def
    by (simp_all add: r ldbytes_all)
  moreover have "replies h (rsp_login_bytes rsp)"
    by (rule repliesI [of _ "lr_head rsp" "bytes32 (lr_bsize rsp)"]) (simp_all add: rsp_login_bytes_def r)
  ultimately show ?thesis using answeredI [OF g m] len by (simp add: full_buf_ok)
qed

lemma login_answered:
  assumes ok: "pool_ok (n_pool (nets s c))" and t: "b_type b = 1" and h: "cast_head (b_img b) = Some h"
    and sw: "busi_switch E c b s = Some (b', s')"
  shows "answered c b h [] s b' s'"
proof -
  obtain r where r: "gfs_busi_login_parse (b_img b) s = Some r" using sw t by (auto simp: busi_switch_def bind_eq_Some_conv)
  show ?thesis
  proof (cases r)
    case (Inl rsp)
    then have "gfs_busi_login_tobuf E c rsp b s = Some (b', s')" using sw t r by (simp add: busi_switch_def)
    moreover have "lr_head rsp = rsp_head 28 h GFS_BUSI_RTN_MSG_FORMAT_ERR" "lr_separate rsp = 0"
      using r Inl h by (auto simp: gfs_busi_login_parse_def bind_eq_Some_conv Let_def rsp_head_def split: if_splits)
    ultimately show ?thesis using login_tobuf_answered grows_refl ok by metis
  next
    case (Inr req)
    then obtain rsp s1 where hd: "gfs_busi_login_handle E c req s = Some (rsp, s1)"
        and tb: "gfs_busi_login_tobuf E c rsp b s1 = Some (b', s')"
      using sw t r by (auto simp: busi_switch_def bind_eq_Some_conv)
    have q: "h_id (lq_head req) = h_id h" "h_type (lq_head req) = h_type h"
      using r Inr h by (auto simp: gfs_busi_login_parse_def bind_eq_Some_conv Let_def split: if_splits)
    have "\<exists>rtn. lr_head rsp = rsp_head 28 h rtn \<and> lr_separate rsp = 0"
      using hd q unfolding gfs_busi_login_handle_def
      by (auto simp: bind_eq_Some_conv Let_def rsp_head_def split: if_splits)
    moreover have "grows c [] s s1"
      using hd ok unfolding gfs_busi_login_handle_def
      by (auto simp: bind_eq_Some_conv Let_def grows_def split: if_splits)
    ultimately show ?thesis using login_tobuf_answered tb by metis
  qed
qed

section \<open>Delete\<close>

lemma delfile_tobuf_answered:
  assumes g: "grows c leak s s1" and t: "gfs_busi_delete_file_tobuf E c rsp b s1 = Some (b', s')"
    and r: "fr_head rsp = rsp_head 24 h rtn" "fr_separate rsp = 0"
  shows "answered c b h leak s b' s'"
proof -
  obtain a s2 where m: "ns_malloc c 24 s1 = (a, s2)" by fastforce
  note g2 = malloc_grows [OF growsD(2) [OF g] m]
  have len: "length (rsp_delfile_bytes rsp) = 24" by (simp add: rsp_delfile_bytes_def)
  have "b' = b\<lparr>b_sbuf := full_buf (rsp_delfile_bytes rsp) 24, a_sbuf := a\<rparr>" "s' = s2"
    using t m g2(1) len unfolding gfs_busi_delete_file_tobuf_def
    by (simp_all add: r ldbytes_all)
  moreover have "replies h (rsp_delfile_bytes rsp)"
    by (rule repliesI [of _ "fr_head rsp" "[]"]) (simp_all add: rsp_delfile_bytes_def r)
  ultimately show ?thesis using answeredI [OF g m] len by (simp add: full_buf_ok)
qed

lemma delfile_answered:
  assumes ok: "pool_ok (n_pool (nets s c))" and t: "b_type b = 4" and h: "cast_head (b_img b) = Some h"
    and sw: "busi_switch E c b s = Some (b', s')"
  shows "answered c b h [] s b' s'"
proof -
  obtain r where r: "gfs_busi_delete_file_parse (b_img b) = Some r" using sw t by (auto simp: busi_switch_def bind_eq_Some_conv)
  show ?thesis
  proof (cases r)
    case (Inl rsp)
    then have "gfs_busi_delete_file_tobuf E c rsp b s = Some (b', s')" using sw t r by (simp add: busi_switch_def)
    moreover have "fr_head rsp = rsp_head 24 h GFS_BUSI_RTN_MSG_FORMAT_ERR" "fr_separate rsp = 0"
      using r Inl h by (auto simp: gfs_busi_delete_file_parse_def bind_eq_Some_conv Let_def rsp_head_def split: if_splits)
    ultimately show ?thesis using delfile_tobuf_answered grows_refl ok by metis
  next
    case (Inr req)
    then obtain rsp s1 where hd: "gfs_busi_delete_file_handle E req s = Some (rsp, s1)"
        and tb: "gfs_busi_delete_file_tobuf E c rsp b s1 = Some (b', s')"
      using sw t r by (auto simp: busi_switch_def bind_eq_Some_conv)
    have q: "h_id (fq_head req) = h_id h" "h_type (fq_head req) = h_type h"
      using r Inr h by (auto simp: gfs_busi_delete_file_parse_def bind_eq_Some_conv Let_def split: if_splits)
    have "\<exists>rtn. fr_head rsp = rsp_head 24 h rtn \<and> fr_separate rsp = 0"
      using hd q unfolding gfs_busi_delete_file_handle_def
      by (auto simp: bind_eq_Some_conv Let_def rsp_head_def split: if_splits)
    moreover have "grows c [] s s1"
      using hd ok unfolding gfs_busi_delete_file_handle_def
      by (auto simp: bind_eq_Some_conv Let_def grows_def split: if_splits)
    ultimately show ?thesis using delfile_tobuf_answered tb by metis
  qed
qed

section \<open>Size query\<close>

lemma getfsize_tobuf_answered:
  assumes g: "grows c leak s s1" and t: "gfs_busi_getfsize_tobuf E c rsp b s1 = Some (b', s')"
    and r: "gr_head rsp = rsp_head 36 h rtn"
  shows "answered c b h leak s b' s'"
proof -
  obtain a s2 where m: "ns_malloc c (htonl 36) s1 = (a, s2)" by fastforce
  note g2 = malloc_grows [OF growsD(2) [OF g] m]
  have len: "length (rsp_getfsize_bytes rsp) = 36" by (simp add: rsp_getfsize_bytes_def)
  have "b' = b\<lparr>b_sbuf := full_buf (rsp_getfsize_bytes rsp) 36, a_sbuf := a\<rparr>" "s' = s2"
    using t m g2(1) len unfolding gfs_busi_getfsize_tobuf_def
    by (auto simp: r Let_def split: if_splits)
  moreover have "replies h (rsp_getfsize_bytes rsp)"
    by (rule repliesI [of _ "gr_head rsp" "bytes64 (gr_fsize rsp) @ bytes32 (gr_bsize rsp)"])
      (simp_all add: rsp_getfsize_bytes_def r)
  ultimately show ?thesis using answeredI [OF g m] len by (simp add: full_buf_ok)
qed

lemma getfsize_answered:
  assumes ok: "pool_ok (n_pool (nets s c))" and t: "b_type b = 10" and h: "cast_head (b_img b) = Some h"
    and sw: "busi_switch E c b s = Some (b', s')"
  shows "answered c b h [] s b' s'"
proof -
  obtain r where r: "gfs_busi_getfsize_parse E (b_img b) s = Some r" using sw t by (auto simp: busi_switch_def bind_eq_Some_conv)
  show ?thesis
  proof (cases r)
    case (Inl rsp)
    then have "gfs_busi_getfsize_tobuf E c rsp b s = Some (b', s')" using sw t r by (simp add: busi_switch_def)
    moreover have "gr_head rsp = rsp_head 36 h GFS_BUSI_RTN_MSG_FORMAT_ERR"
      using r Inl h by (auto simp: gfs_busi_getfsize_parse_def bind_eq_Some_conv Let_def rsp_head_def split: if_splits)
    ultimately show ?thesis using getfsize_tobuf_answered grows_refl ok by metis
  next
    case (Inr req)
    then obtain rsp s1 where hd: "gfs_busi_getfsize_handle E req s = Some (rsp, s1)"
        and tb: "gfs_busi_getfsize_tobuf E c rsp b s1 = Some (b', s')"
      using sw t r by (auto simp: busi_switch_def bind_eq_Some_conv)
    have q: "h_id (gq_head req) = h_id h" "h_type (gq_head req) = h_type h"
      using r Inr h by (auto simp: gfs_busi_getfsize_parse_def bind_eq_Some_conv Let_def split: if_splits)
    have "\<exists>rtn. gr_head rsp = rsp_head 36 h rtn"
      using hd q unfolding gfs_busi_getfsize_handle_def
      by (auto simp: bind_eq_Some_conv Let_def rsp_head_def split: if_splits)
    moreover have "grows c [] s s1"
      using hd ok unfolding gfs_busi_getfsize_handle_def
      by (auto simp: bind_eq_Some_conv Let_def grows_def split: if_splits)
    ultimately show ?thesis using getfsize_tobuf_answered tb by metis
  qed
qed

section \<open>Upload\<close>

text \<open>What \<open>gfs_busi_upload_handle\<close> leaves for \<open>gfs_busi_upload_tobuf\<close>: the length covers the list, which is freed.\<close>

definition upload_rsp :: "addr \<Rightarrow> gfs_busi_req_head \<Rightarrow> 'w ns \<Rightarrow> gfs_busi_rsp_upload \<Rightarrow> 'w ns \<Rightarrow> bool" where
  "upload_rsp c h s rsp s1 \<longleftrightarrow> (\<exists>num rtn. ur_head rsp = rsp_head (36 + of_nat num * 20) h rtn \<and> ur_dsnum rsp = htonl (of_nat num)
     \<and> num \<le> 3 \<and> (\<forall>d \<in> set (ur_elems rsp). length (ds_ip d) = 16)
     \<and> grows c (if ur_dslist rsp = NULL then [] else [(ur_dslist rsp, of_nat num * 20)]) s s1)"

lemma concat_ds_length: "\<forall>d \<in> set ds. length (ds_ip d) = 16 \<Longrightarrow> length (concat (map ds_bytes ds)) = 20 * length ds"
  by (induction ds) (auto simp: ds_bytes_def)

lemma upload_tobuf_answered:
  assumes u: "upload_rsp c h s rsp s1" and t: "gfs_busi_upload_tobuf E c rsp b s1 = Some (b', s')"
  shows "answered c b h [] s b' s'"
proof -
  obtain num rtn where r: "ur_head rsp = rsp_head (36 + of_nat num * 20) h rtn" "ur_dsnum rsp = htonl (of_nat num)" "num \<le> 3"
      "\<forall>d \<in> set (ur_elems rsp). length (ds_ip d) = 16"
      and g: "grows c (if ur_dslist rsp = NULL then [] else [(ur_dslist rsp, of_nat num * 20)]) s s1"
    using u by (auto simp: upload_rsp_def)
  let ?n = "36 + num * 20"
  have eq: "(of_nat ?n :: u32) = 36 + of_nat num * 20" by simp
  have un: "unat (36 + of_nat num * 20 :: u32) = ?n" and nn: "unat (of_nat num :: u32) = num"
    using r(3) unat_of_nat_u32 [of ?n] unat_of_nat_u32 [of num] by (simp_all add: eq)
  have n0: "(of_nat ?n :: u32) \<noteq> 0" using un unfolding eq by (metis unat_0 add_is_0 zero_neq_numeral)
  obtain a s2 where m: "ns_malloc c (of_nat ?n) s1 = (a, s2)" by fastforce
  note g2 = malloc_grows [OF growsD(2) [OF g] m n0]
  obtain bs where le: "num = length (ur_elems rsp)" and bl: "blit E s2 ?n (rsp_upload_bytes rsp) = Some bs"
      and f: "ns_free c (ur_dslist rsp) s2 = Some s'" and b': "b' = b\<lparr>b_sbuf := full_buf bs ?n, a_sbuf := a\<rparr>"
    using t m g2(1) unfolding gfs_busi_upload_tobuf_def
    by (auto simp: r(1,2) un nn eq bind_eq_Some_conv Let_def split: if_splits)
  have len: "length (rsp_upload_bytes rsp) = ?n"
    using concat_ds_length [OF r(4)] le by (simp add: rsp_upload_bytes_def)
  then have bs: "bs = rsp_upload_bytes rsp" using bl by (simp add: blit_def junk_def)
  have "replies h (rsp_upload_bytes rsp)"
    by (rule repliesI [of _ "ur_head rsp" "bytes64 (ur_fid rsp) @ bytes32 (ur_dsnum rsp) @ concat (map ds_bytes (ur_elems rsp))"])
      (use concat_ds_length [OF r(4)] le in \<open>simp_all add: rsp_upload_bytes_def r(1) algebra_simps\<close>)
  moreover have "grows c [(a, of_nat ?n)] s s'"
  proof (cases "ur_dslist rsp = NULL")
    case True
    then show ?thesis using f g g2(2) grows_trans free_null [of c s2] by fastforce
  next
    case False
    then have "ledger s2 c = [(a, of_nat ?n)] @ (ur_dslist rsp, of_nat num * 20) # ledger s c"
      using g g2(2) by (simp add: grows_def)
    then obtain s3 where "ns_free c (ur_dslist rsp) s2 = Some s3" "io (nets s3 c) = io (nets s2 c)" "pool_ok (n_pool (nets s3 c))"
        "ledger s3 c = [(a, of_nat ?n)] @ ledger s c"
      using free_live [OF growsD(2) [OF g2(2)]] by metis
    then show ?thesis using f g g2(2) by (simp add: grows_def)
  qed
  ultimately show ?thesis unfolding answered_def
    using b' bs len g2(1) by (intro exI [of _ a] exI [of _ "of_nat ?n"] exI [of _ "full_buf bs ?n"]) (simp add: full_buf_ok)
qed

lemma upload_handle_rsp:
  assumes ok: "pool_ok (n_pool (nets s c))" and hd: "gfs_busi_upload_handle E c req s = Some (rsp, s1)"
    and q: "h_id (uq_head req) = h_id h" "h_type (uq_head req) = h_type h"
  shows "upload_rsp c h s rsp s1"
proof -
  let ?rsp = "\<lambda>rtn. \<lparr>ur_head = rsp_head 36 h rtn, ur_fid = 0, ur_dsnum = 0, ur_dslist = NULL, ur_elems = []\<rparr>"
  have early: "upload_rsp c h s (?rsp rtn) s'" if "nets s' = nets s" for rtn and s' :: "'a ns"
    unfolding upload_rsp_def by (rule exI [of _ 0]) (use ok that in \<open>auto simp: rsp_head_def grows_def\<close>)
  show ?thesis
  proof (cases "(\<exists>rtn. rsp = ?rsp rtn) \<and> nets s1 = nets s")
    case True
    then show ?thesis using early by auto
  next
    case False
    obtain ret pnet m where top: "gfs_net_map_gettopn (os_raw E (world s)) (os_time E (world s)) 3 (dsmap s) = Some (ret, pnet, m)"
      using hd False q unfolding gfs_busi_upload_handle_def
      by (auto simp: rsp_head_def bind_eq_Some_conv Let_def split: if_splits)
    define num :: u32 where "num = of_nat (length pnet)"
    define s0 where "s0 = s\<lparr>dsmap := m\<rparr>"
    have le: "length pnet \<le> 3" by (rule gettopn_bound [OF top])
    have ok0: "pool_ok (n_pool (nets s0 c))" using ok by (simp add: s0_def)
    obtain pdata s2 where m: "ns_malloc c (num * 20) s0 = (pdata, s2)" by fastforce
    have ne: "ret = GFS_OK" "num \<noteq> 0"
      using hd False q top unfolding gfs_busi_upload_handle_def
      by (auto simp: rsp_head_def num_def Let_def split: if_splits)
    have "unat (num * 20) = length pnet * 20"
      using unat_of_nat_u32 [of "length pnet * 20"] le by (simp add: num_def)
    then have n20: "num * 20 \<noteq> 0" using ne(2) by (auto simp: num_def)
    note g = malloc_grows [OF ok0 m n20]
    obtain rtn where r: "ur_head rsp = rsp_head (36 + num * 20) h rtn" "ur_dsnum rsp = htonl num" "ur_dslist rsp = pdata"
        "ur_elems rsp = map (\<lambda>(i, net). upload_ds E s2 i net) (enumerate 0 pnet)" "nets s1 = nets s2"
      using hd False q top m ne g(1) unfolding gfs_busi_upload_handle_def
      by (auto simp: rsp_head_def num_def [symmetric] s0_def [symmetric] bind_eq_Some_conv Let_def split: if_splits)
    have "\<forall>d \<in> set (ur_elems rsp). length (ds_ip d) = 16" by (auto simp: r(4) upload_ds_def junk_def)
    moreover have "grows c [(pdata, num * 20)] s s1" using g(2) r(5) by (simp add: grows_def s0_def)
    ultimately show ?thesis unfolding upload_rsp_def
      using r le g(1) by (intro exI [of _ "length pnet"] exI [of _ rtn]) (simp add: num_def)
  qed
qed

lemma upload_answered:
  assumes ok: "pool_ok (n_pool (nets s c))" and t: "b_type b = 2" and h: "cast_head (b_img b) = Some h"
    and sw: "busi_switch E c b s = Some (b', s')"
  shows "answered c b h [] s b' s'"
proof -
  obtain r where r: "gfs_busi_upload_parse (b_img b) = Some r" using sw t by (auto simp: busi_switch_def bind_eq_Some_conv)
  show ?thesis
  proof (cases r)
    case (Inl rsp)
    then have "gfs_busi_upload_tobuf E c rsp b s = Some (b', s')" using sw t r by (simp add: busi_switch_def)
    moreover have "upload_rsp c h s rsp s"
      unfolding upload_rsp_def using r Inl h ok
      by (intro exI [of _ 0] exI [of _ GFS_BUSI_RTN_MSG_FORMAT_ERR])
        (auto simp: gfs_busi_upload_parse_def bind_eq_Some_conv Let_def rsp_head_def grows_def split: if_splits)
    ultimately show ?thesis using upload_tobuf_answered by metis
  next
    case (Inr req)
    then obtain rsp s1 where hd: "gfs_busi_upload_handle E c req s = Some (rsp, s1)"
        and tb: "gfs_busi_upload_tobuf E c rsp b s1 = Some (b', s')"
      using sw t r by (auto simp: busi_switch_def bind_eq_Some_conv)
    have "h_id (uq_head req) = h_id h" "h_type (uq_head req) = h_type h"
      using r Inr h by (auto simp: gfs_busi_upload_parse_def bind_eq_Some_conv Let_def split: if_splits)
    then show ?thesis using upload_tobuf_answered [OF upload_handle_rsp [OF ok hd] tb] by simp
  qed
qed

section \<open>Download\<close>

text \<open>The query only adds to the pool; the list it hands over is the newest of the blocks it added.\<close>

definition dl_inv :: "(addr \<times> u32) list \<Rightarrow> dl_state \<Rightarrow> mem_pool \<Rightarrow> bool" where
  "dl_inv live0 d pool \<longleftrightarrow> pool_ok pool \<and> (\<exists>new. mp_live pool = new @ live0
     \<and> (dl_blist d = NULL \<or> (\<exists>n xs. new = (dl_blist d, n) # xs)))"

lemma download_rows_blist: "download_rows e num rows d = Some d' \<Longrightarrow> dl_blist d' = dl_blist d"
proof (induction e num rows d rule: download_rows.induct)
  case (1 e num rows d)
  show ?case
  proof (cases "dl_i d < num")
    case False
    then show ?thesis using "1.prems" by simp
  next
    case True
    then show ?thesis using 1 by (cases rows) (auto simp: bind_eq_Some_conv split: if_splits)
  qed
qed

lemma download_result_inv:
  assumes "download_result r d pool = Some (go, d', pool')" and "dl_inv live0 d pool"
  shows "dl_inv live0 d' pool'"
proof (cases "\<exists>rows. rs_rows r = Some rows \<and> 1 \<le> dl_index d \<and> rows \<noteq> [] \<and> of_nat (length rows) * (16 :: u32) \<noteq> 0")
  case False
  then have "dl_blist d' = dl_blist d \<and> pool' = pool"
    using assms(1) by (auto simp: download_result_def bind_eq_Some_conv pool_malloc_def Let_def
        split: if_splits option.splits list.splits)
  then show ?thesis using assms(2) by (simp add: dl_inv_def)
next
  case True
  then obtain rows where rows: "rs_rows r = Some rows" "1 \<le> dl_index d" "rows \<noteq> []" "of_nat (length rows) * (16 :: u32) \<noteq> 0"
    by blast
  obtain a p where m: "pool_malloc (of_nat (length rows) * 16) pool = (a, p)" by fastforce
  have "pool_ok pool" using assms(2) by (simp add: dl_inv_def)
  then have a: "a \<noteq> NULL" "mp_live p = (a, of_nat (length rows) * 16) # mp_live pool" "pool_ok p"
    using m rows(4) pool_malloc_ok [of pool "of_nat (length rows) * 16"]
    by (auto simp: pool_malloc_def) (simp add: pool_ok_def)
  have "pool' = p" "dl_blist d' = a"
    using assms(1) rows m a(1) by (auto simp: download_result_def bind_eq_Some_conv Let_def simp del: download_rows.simps dest!: download_rows_blist)
  then show ?thesis using a assms(2) by (auto simp: dl_inv_def)
qed

lemma download_results_inv:
  "download_results r rs d pool = Some (d', pool') \<Longrightarrow> dl_inv live0 d pool \<Longrightarrow> dl_inv live0 d' pool'"
proof (induction rs arbitrary: r d pool)
  case Nil
  then show ?case using download_result_inv by (auto simp: bind_eq_Some_conv)
next
  case (Cons r' rs)
  obtain go d1 pool1 where 1: "download_result r d pool = Some (go, d1, pool1)"
    using Cons.prems(1) by (auto simp: bind_eq_Some_conv)
  then show ?case
    using Cons download_result_inv [OF 1 Cons.prems(2)] by (cases go) (auto simp del: download_results.simps simp: download_results.simps [of r])
qed

lemma mysql_download_inv:
  assumes "gfs_mysql_download my hash bi fid pool q = Some (d, pool', q')" and "pool_ok pool"
  shows "dl_inv (mp_live pool) d pool'"
proof -
  have i: "dl_inv (mp_live pool) d0 pool" if "dl_blist d0 = NULL" for d0
    using assms(2) that by (simp add: dl_inv_def)
  let ?d = "\<lparr>dl_index = 0, dl_i = 0, dl_rtn = SQL_ERROR, dl_fid = fid, dl_bnum = 0, dl_blist = NULL, dl_elems = []\<rparr>"
  define query where "query = ''call download_file('' @ [CHR 0x27] @ hash @ [CHR 0x27] @ '', '' @ dec_int (sint bi) @ '')''"
  note dl = assms(1) [unfolded gfs_mysql_download_def Let_def query_def [symmetric]]
  obtain out q1 where out: "sql_call my 64 query q = Some (out, q1)" using dl by (cases "sql_call my 64 query q") auto
  show ?thesis
  proof (cases out)
    case (Reply m rp)
    then have "download_results (rp_first rp) (rp_more rp) ?d pool = Some (d, pool')"
      using dl out by (auto simp: bind_eq_Some_conv simp del: download_results.simps)
    then show ?thesis by (rule download_results_inv) (simp add: i)
  qed (use dl out i in auto)
qed

definition download_rsp ::
  "addr \<Rightarrow> gfs_busi_req_head \<Rightarrow> (addr \<times> u32) list \<Rightarrow> 'w ns \<Rightarrow> gfs_busi_rsp_download \<Rightarrow> addr \<Rightarrow> 'w ns \<Rightarrow> bool" where
  "download_rsp c h leak s rsp blist s1 \<longleftrightarrow> (\<exists>rtn. dr_head rsp = rsp_head 36 h rtn)
     \<and> (blist = NULL \<and> grows c leak s s1 \<or> (\<exists>n. grows c ((blist, n) # leak) s s1))"

lemma download_handle_rsp:
  assumes ok: "pool_ok (n_pool (nets s c))" and hd: "gfs_busi_download_handle E c req s = Some (rsp, data, s1)"
    and q: "h_id (dq_head req) = h_id h" "h_type (dq_head req) = h_type h"
  shows "\<exists>leak. download_rsp c h leak s rsp (fst data) s1"
proof -
  have rtn: "\<exists>rtn. dr_head rsp = rsp_head 36 h rtn"
    using hd q unfolding gfs_busi_download_handle_def
    by (auto simp: rsp_head_def bind_eq_Some_conv Let_def split: if_splits)
  have "nets s1 = nets s \<and> fst data = NULL
    \<or> (\<exists>hash d p x. gfs_mysql_download (db E) hash (dq_bindex req) 0 (n_pool (nets s c)) (sql s) = Some (d, p, x)
        \<and> nets s1 = (nets s)(c := (nets s c)\<lparr>n_pool := p\<rparr>) \<and> (fst data = NULL \<or> fst data = dl_blist d))"
  proof -
    obtain n hash where hs: "h_encrypt (dq_head req) = 0 \<longrightarrow> gfs_hextostr (dq_hash req) 16 = Some (n, hash)"
      using hd by (fastforce simp: gfs_busi_download_handle_def Let_def bind_eq_Some_conv split: if_splits)
    show ?thesis
    proof (cases "gfs_mysql_download (db E) hash (dq_bindex req) 0 (n_pool (nets s c)) (sql s)")
      case None
      then show ?thesis using hd hs by (auto simp: gfs_busi_download_handle_def Let_def split: if_splits)
    next
      case (Some y)
      obtain d p x where "y = (d, p, x)" by (cases y)
      then have "nets s1 = nets s \<and> fst data = NULL
          \<or> nets s1 = (nets s)(c := (nets s c)\<lparr>n_pool := p\<rparr>) \<and> (fst data = NULL \<or> fst data = dl_blist d)"
        using hd hs Some by (auto simp: gfs_busi_download_handle_def Let_def split: if_splits)
      then show ?thesis using Some \<open>y = (d, p, x)\<close> by blast
    qed
  qed
  then consider (same) "nets s1 = nets s" "fst data = NULL"
    | (query) hash d p x where "gfs_mysql_download (db E) hash (dq_bindex req) 0 (n_pool (nets s c)) (sql s) = Some (d, p, x)"
        "nets s1 = (nets s)(c := (nets s c)\<lparr>n_pool := p\<rparr>)" "fst data = NULL \<or> fst data = dl_blist d"
    by (elim disjE exE conjE) blast+
  then show ?thesis
  proof cases
    case same
    then show ?thesis using rtn ok by (intro exI [of _ "[]"]) (auto simp: download_rsp_def grows_def)
  next
    case query
    have "dl_inv (ledger s c) d p" by (rule mysql_download_inv [OF query(1) ok])
    then obtain new where new: "mp_live p = new @ ledger s c"
        "dl_blist d = NULL \<or> (\<exists>n xs. new = (dl_blist d, n) # xs)" and p: "pool_ok p"
      by (auto simp: dl_inv_def)
    then have g: "grows c new s s1" by (simp add: query(2) grows_def)
    then show ?thesis using new(2) query(3) rtn by (cases "fst data = NULL") (auto simp: download_rsp_def)
  qed
qed

lemma download_loop_step:
  assumes "download_loop E s type (e # bl) acc dn bi = Some bs"
  shows "bs = rev acc \<or> (\<exists>dn' bi'. download_loop E s type bl acc dn' bi' = Some bs)
    \<or> (\<exists>x dn' bi'. length acc \<le> 150 \<and> length (bi_ip x) = 16 \<and> download_loop E s type bl (x # acc) dn' bi' = Some bs)"
proof -
  obtain x dsid where e: "e = Some (x, dsid)" using assms by (cases e) auto
  define prev where "prev = (case acc of [] \<Rightarrow> type | x # _ \<Rightarrow> bi_bindex x)"
  define dn' where "dn' = (if dn \<ge> g_copies s then 0 else dn)"
  note def = assms [unfolded e, simplified, folded prev_def]
  consider "g_copies s \<le> dn \<and> prev = htonl x" | "\<not> (g_copies s \<le> dn \<and> prev = htonl x)" "150 < length acc"
    | "\<not> (g_copies s \<le> dn \<and> prev = htonl x)" "length acc \<le> 150"
    by linarith
  then show ?thesis
  proof cases
    case 1
    then show ?thesis using def by (auto simp: Let_def)
  next
    case 2
    then show ?thesis using def by (auto simp: Let_def)
  next
    case 3
    then obtain net where "gfs_net_map_get dsid (dsmap s) = Some net"
      using def by (auto simp: Let_def bind_eq_Some_conv)
    then show ?thesis using def 3
      by (cases "net = NULL") (auto simp: Let_def junk_def intro!: exI)
  qed
qed

lemma download_loop_bound:
  "download_loop E s type bl acc dn bi = Some bs \<Longrightarrow> length acc \<le> 151 \<Longrightarrow> \<forall>x \<in> set acc. length (bi_ip x) = 16 \<Longrightarrow>
   length bs \<le> 151 \<and> (\<forall>x \<in> set bs. length (bi_ip x) = 16)"
proof (induction bl arbitrary: acc dn bi)
  case Nil
  then show ?case by auto
next
  case (Cons e bl)
  consider "bs = rev acc" | dn' bi' where "download_loop E s type bl acc dn' bi' = Some bs"
    | x dn' bi' where "length acc \<le> 150" "length (bi_ip x) = 16" "download_loop E s type bl (x # acc) dn' bi' = Some bs"
    using download_loop_step [OF Cons.prems(1)] by blast
  then show ?case
  proof cases
    case 1
    then show ?thesis using Cons.prems(2,3) by simp
  next
    case 2
    then show ?thesis using Cons.IH [OF 2] Cons.prems(2,3) by simp
  next
    case 3
    then show ?thesis using Cons.IH [OF 3(3)] 3(1,2) Cons.prems(2,3) by simp
  qed
qed

lemma concat_binfo_length: "\<forall>x \<in> set bs. length (bi_ip x) = 16 \<Longrightarrow> length (concat (map binfo_bytes bs)) = 24 * length bs"
  by (induction bs) (auto simp: binfo_bytes_def)

text \<open>The size asked for wraps around, but never to zero.\<close>

lemma download_size_nonzero: "(b :: u32) * 24 + 36 \<noteq> 0"
proof
  assume "b * 24 + 36 = 0"
  then have "(b * 24 + 36) * 536870912 = 0" by simp
  then have "19327352832 + b * 12884901888 = 0" by (simp add: algebra_simps)
  moreover have z: "(12884901888 :: u32) = 0" by simp
  ultimately show False by (simp only: z) simp
qed

lemma download_tobuf_answered:
  assumes u: "download_rsp c h leak s rsp (fst data) s1" and t: "gfs_busi_download_tobuf E c rsp data b s1 = Some (b', s')"
  shows "answered c b h leak s b' s'"
proof -
  obtain blist elems where data: "data = (blist, elems)" by fastforce
  obtain rtn live where r: "dr_head rsp = rsp_head 36 h rtn" and g: "grows c live s s1"
      and live: "blist = NULL \<and> live = leak \<or> (\<exists>n. live = (blist, n) # leak)"
    using u data by (auto simp: download_rsp_def)
  define n where "n = (if ntohl (dr_bnum rsp) = 0 then 36 else ntohl (dr_bnum rsp) * 24 + 36)"
  have n0: "n \<noteq> 0" using download_size_nonzero by (simp add: n_def)
  obtain a s2 where m: "ns_malloc c n s1 = (a, s2)" by fastforce
  note g2 = malloc_grows [OF growsD(2) [OF g] m n0]
  obtain bs where lp: "download_loop E s2 (h_type h) (take (unat (ntohl (dr_bnum rsp))) elems) [] 0 0 = Some bs"
    using t m g2(1) r unfolding gfs_busi_download_tobuf_def data
    by (auto simp: bind_eq_Some_conv Let_def n_def split: if_splits)
  define rsp' where "rsp' = rsp\<lparr>dr_bnum := htonl (of_nat (length bs)),
    dr_head := (dr_head rsp)\<lparr>r_len := htonl (of_nat (length bs) * 24 + 36)\<rparr>\<rparr>"
  have bound: "length bs \<le> 151" "\<forall>x \<in> set bs. length (bi_ip x) = 16"
    using download_loop_bound [OF lp] by auto
  have un: "unat (of_nat (length bs) * 24 + 36 :: u32) = 24 * length bs + 36"
    using unat_of_nat_u32 [of "24 * length bs + 36"] bound(1) by (simp add: mult.commute)
  obtain out where bl: "blit E s2 (unat n) (rsp_download_bytes rsp' bs) = Some out"
      and f: "ns_free c blist s2 = Some s'"
      and b': "b' = b\<lparr>b_sbuf := full_buf out (24 * length bs + 36), a_sbuf := a\<rparr>"
    using t m g2(1) r lp un unfolding gfs_busi_download_tobuf_def data
    by (auto simp: bind_eq_Some_conv Let_def n_def rsp'_def split: if_splits)
  have len: "length (rsp_download_bytes rsp' bs) = 24 * length bs + 36"
    using concat_binfo_length [OF bound(2)] by (simp add: rsp_download_bytes_def)
  then have out: "take (24 * length bs + 36) out = rsp_download_bytes rsp' bs" "24 * length bs + 36 \<le> length out"
    using bl by (auto simp: blit_def split: if_splits)
  have rep: "replies h (rsp_download_bytes rsp' bs)"
    by (rule repliesI [of _ "dr_head rsp'" "bytes64 (dr_fid rsp') @ bytes32 (dr_bnum rsp') @ concat (map binfo_bytes bs)"])
      (use concat_binfo_length [OF bound(2)] in \<open>simp_all add: rsp_download_bytes_def rsp'_def r algebra_simps\<close>)
  have "grows c ((a, n) # leak) s s'"
  proof (cases "blist = NULL")
    case True
    then have "live = leak" using live growsD(2,3) [OF g] by (auto simp: pool_ok_def)
    then show ?thesis using f g g2(2) grows_trans free_null [of c s2] True by fastforce
  next
    case False
    then obtain k where "ledger s2 c = [(a, n)] @ (blist, k) # leak @ ledger s c"
      using g g2(2) live by (auto simp: grows_def)
    then obtain s3 where "ns_free c blist s2 = Some s3" "io (nets s3 c) = io (nets s2 c)" "pool_ok (n_pool (nets s3 c))"
        "ledger s3 c = [(a, n)] @ leak @ ledger s c"
      using free_live [OF growsD(2) [OF g2(2)]] by metis
    then show ?thesis using f g g2(2) by (simp add: grows_def)
  qed
  then show ?thesis unfolding answered_def
    using b' out rep g2(1)
    by (intro exI [of _ a] exI [of _ n] exI [of _ "full_buf out (24 * length bs + 36)"]) (simp add: full_buf_ok)
qed

lemma download_answered:
  assumes ok: "pool_ok (n_pool (nets s c))" and t: "b_type b = 3" and h: "cast_head (b_img b) = Some h"
    and sw: "busi_switch E c b s = Some (b', s')"
  shows "\<exists>leak. answered c b h leak s b' s'"
proof -
  obtain r where r: "gfs_busi_download_parse E (b_img b) s = Some r" using sw t by (auto simp: busi_switch_def bind_eq_Some_conv)
  show ?thesis
  proof (cases r)
    case (Inl rsp)
    then have "gfs_busi_download_tobuf E c rsp (NULL, []) b s = Some (b', s')" using sw t r by (simp add: busi_switch_def)
    moreover have "download_rsp c h [] s rsp NULL s"
      unfolding download_rsp_def using r Inl h ok
      by (auto simp: gfs_busi_download_parse_def bind_eq_Some_conv Let_def rsp_head_def grows_def split: if_splits)
    ultimately show ?thesis using download_tobuf_answered by (metis fst_conv)
  next
    case (Inr req)
    then obtain rsp data s1 where hd: "gfs_busi_download_handle E c req s = Some (rsp, data, s1)"
        and tb: "gfs_busi_download_tobuf E c rsp data b s1 = Some (b', s')"
      using sw t r by (auto simp: busi_switch_def bind_eq_Some_conv)
    have "h_id (dq_head req) = h_id h" "h_type (dq_head req) = h_type h"
      using r Inr h by (auto simp: gfs_busi_download_parse_def bind_eq_Some_conv Let_def split: if_splits)
    then show ?thesis using download_tobuf_answered [OF _ tb] download_handle_rsp [OF ok hd] by blast
  qed
qed

end
