(* ===== verification/Serving.thy ===== *)
theory Serving
  imports Replies
begin

text \<open>
  A request from its packet to its response. The statements of the database layer leave what the peers
  receive alone (\<open>db_quiet\<close>), and the sockets are healthy; then a request is answered with one response,
  the notices of a data server are not answered, the connection is ready for the next packet, and a
  buffer of well-formed packets is served in their order.
\<close>

section \<open>What the database layer leaves alone\<close>

definition db_quiet :: "'w mysql \<Rightarrow> ('w \<Rightarrow> 'b) \<Rightarrow> bool" where
  "db_quiet my out \<longleftrightarrow> (\<forall>w. out (snd (my_malloc my w)) = out w) \<and> (\<forall>w. out (snd (my_init my w)) = out w)
     \<and> (\<forall>n cfg w. out (snd (my_real_connect my n cfg w)) = out w) \<and> (\<forall>n q w. out (snd (my_query my n q w)) = out w)
     \<and> (\<forall>n w. out (my_ping my n w) = out w)"

lemma connect_quiet: "db_quiet my out \<Longrightarrow> gfs_connect_to my cfg w = (c, w') \<Longrightarrow> out w' = out w"
  by (auto simp: gfs_connect_to_def db_quiet_def split: prod.splits option.splits bool.splits) (metis snd_conv)+

lemma quiet_keeps:
  assumes q: "db_quiet my out"
  shows "sql_keeps my (\<lambda>s. out (sq_world s) = x)"
proof (unfold_locales, goal_cases)
  case (1 s c s')
  obtain p where p: "mysql_pool s = Some p" using 1(2) by (auto simp: gfs_mysql_get_def bind_eq_Some_conv)
  then show ?case using 1 q
    by (cases "pl_conn p") (auto simp: gfs_mysql_get_def db_quiet_def split: if_splits)
next
  case (2 s m r s')
  then obtain p where p: "mysql_pool s = Some p" by (auto simp: gfs_mysql_put_def bind_eq_Some_conv)
  obtain ok w where ok: "my_malloc my (sq_world s) = (ok, w)" by fastforce
  obtain c w' where c: "gfs_connect_to my (pl_cfg p) w = (c, w')" by fastforce
  have "out w = x" using 2(1) ok q by (metis db_quiet_def snd_conv)
  moreover have "out w' = x" using calculation connect_quiet [OF q c] by simp
  ultimately show ?case using 2 p ok c
    by (cases "my_used m = 1"; cases ok; cases c) (auto simp: gfs_mysql_put_def)
next
  case (3 s n q)
  then show ?case using assms by (simp add: db_quiet_def)
qed simp_all

lemmas quiet_sql =
  sql_keeps.updates [OF quiet_keeps] sql_keeps.upload [OF quiet_keeps] sql_keeps.getfsize [OF quiet_keeps]
  sql_keeps.download [OF quiet_keeps]

lemma mem_sql: "ns_malloc c n s = (a, s') \<Longrightarrow> sql s' = sql s" "ns_free c a s = Some s' \<Longrightarrow> sql s' = sql s"
  by (auto simp: ns_malloc_def ns_free_def upd_net_def bind_eq_Some_conv split: prod.splits)

lemma tobuf_sql:
  "gfs_busi_login_tobuf E c rl b s = Some (b', s') \<Longrightarrow> sql s' = sql s"
  "gfs_busi_upload_tobuf E c ru b s = Some (b', s') \<Longrightarrow> sql s' = sql s"
  "gfs_busi_download_tobuf E c rd data b s = Some (b', s') \<Longrightarrow> sql s' = sql s"
  "gfs_busi_delete_file_tobuf E c rf b s = Some (b', s') \<Longrightarrow> sql s' = sql s"
  "gfs_busi_getfsize_tobuf E c rg b s = Some (b', s') \<Longrightarrow> sql s' = sql s"
  by (auto simp: gfs_busi_login_tobuf_def gfs_busi_upload_tobuf_def gfs_busi_download_tobuf_def
      gfs_busi_delete_file_tobuf_def gfs_busi_getfsize_tobuf_def Let_def bind_eq_Some_conv mem_sql
      split: prod.splits if_splits dest!: mem_sql)

lemma login_handle_quiet:
  "db_quiet (db E) out \<Longrightarrow> gfs_busi_login_handle E c req s = Some (rsp, s') \<Longrightarrow> out (world s') = out (world s)"
  unfolding gfs_busi_login_handle_def
  by (auto simp: bind_eq_Some_conv Let_def upd_net_def split: if_splits dest: quiet_sql(1))

lemma delfile_handle_quiet:
  "db_quiet (db E) out \<Longrightarrow> gfs_busi_delete_file_handle E req s = Some (rsp, s') \<Longrightarrow> out (world s') = out (world s)"
  unfolding gfs_busi_delete_file_handle_def
  by (auto simp: bind_eq_Some_conv Let_def split: if_splits dest: quiet_sql(2))

lemma getfsize_handle_quiet:
  "db_quiet (db E) out \<Longrightarrow> gfs_busi_getfsize_handle E req s = Some (rsp, s') \<Longrightarrow> out (world s') = out (world s)"
  unfolding gfs_busi_getfsize_handle_def
  by (auto simp: bind_eq_Some_conv Let_def split: if_splits dest: sql_keeps.getfsize [OF quiet_keeps])

lemma upload_handle_sql:
  assumes "gfs_busi_upload_handle E c req s = Some (rsp, s')"
  shows "sql s' = sql s \<or> (\<exists>h fs bn bi fid u. gfs_mysql_upload (db E) h fs bn bi fid (sql s) = Some (u, sql s'))"
proof (cases "sql s' = sql s")
  case False
  then obtain ret pnet m where top: "gfs_net_map_gettopn (os_raw E (world s)) (os_time E (world s)) 3 (dsmap s) = Some (ret, pnet, m)"
    using assms by (auto simp: gfs_busi_upload_handle_def Let_def bind_eq_Some_conv split: if_splits)
  obtain a s1 where m: "ns_malloc c (of_nat (length pnet) * 20) (s\<lparr>dsmap := m\<rparr>) = (a, s1)" by fastforce
  then have s1: "sql s1 = sql s" using mem_sql(1) by fastforce
  have "\<exists>n hash. gfs_hextostr (uq_hash req) 16 = Some (n, hash)"
    using assms False top m s1 by (auto simp: gfs_busi_upload_handle_def Let_def bind_eq_Some_conv split: if_splits)
  then obtain n hash where hs: "gfs_hextostr (uq_hash req) 16 = Some (n, hash)" by blast
  show ?thesis
  proof (cases "gfs_mysql_upload (db E) hash (uq_fsize req) (uq_bnum req) (uq_bindex req) 0 (sql s)")
    case None
    then show ?thesis using assms False hs top m s1 by (auto simp: gfs_busi_upload_handle_def Let_def split: if_splits)
  next
    case (Some y)
    moreover obtain ret status fid x where y: "y = ((ret, status, fid), x)" by (cases y) auto
    ultimately have "sql s' = x"
      using assms False hs top m s1 by (auto simp: gfs_busi_upload_handle_def Let_def split: if_splits)
    then show ?thesis using Some y by blast
  qed
qed simp

lemma upload_handle_quiet:
  "db_quiet (db E) out \<Longrightarrow> gfs_busi_upload_handle E c req s = Some (rsp, s') \<Longrightarrow> out (world s') = out (world s)"
  using upload_handle_sql sql_keeps.upload [OF quiet_keeps] by metis

lemma download_handle_sql:
  assumes "gfs_busi_download_handle E c req s = Some (rsp, data, s')"
  shows "sql s' = sql s \<or> (\<exists>h bi fid p d p'. gfs_mysql_download (db E) h bi fid p (sql s) = Some (d, p', sql s'))"
proof (cases "sql s' = sql s")
  case False
  then obtain n hash where hs: "gfs_hextostr (dq_hash req) 16 = Some (n, hash)"
    using assms by (auto simp: gfs_busi_download_handle_def Let_def bind_eq_Some_conv split: if_splits)
  show ?thesis
  proof (cases "gfs_mysql_download (db E) hash (dq_bindex req) 0 (n_pool (nets s c)) (sql s)")
    case None
    then show ?thesis using assms False hs by (auto simp: gfs_busi_download_handle_def Let_def split: if_splits)
  next
    case (Some y)
    moreover obtain d p x where "y = (d, p, x)" by (cases y)
    ultimately have "sql s' = x"
      using assms False hs by (auto simp: gfs_busi_download_handle_def Let_def split: if_splits)
    then show ?thesis using Some \<open>y = (d, p, x)\<close> by blast
  qed
qed simp

lemma download_handle_quiet:
  "db_quiet (db E) out \<Longrightarrow> gfs_busi_download_handle E c req s = Some (rsp, data, s') \<Longrightarrow> out (world s') = out (world s)"
  using download_handle_sql sql_keeps.download [OF quiet_keeps] by metis

lemma parse_bind:
  "(p \<bind> (\<lambda>r. case r of Inl x \<Rightarrow> f x | Inr y \<Rightarrow> g y)) = Some z
   \<longleftrightarrow> (\<exists>x. p = Some (Inl x) \<and> f x = Some z) \<or> (\<exists>y. p = Some (Inr y) \<and> g y = Some z)"
  by (cases p) (auto split: sum.splits)

text \<open>The message functions of every type.\<close>

lemma switch_quiet:
  assumes q: "db_quiet (db E) out" and sw: "busi_switch E c b s = Some (b', s')"
  shows "out (world s') = out (world s)"
proof -
  consider "b_type b = 1" | "b_type b = 2" | "b_type b = 3" | "b_type b = 4" | "b_type b = 6" | "b_type b = 8" | "b_type b = 9"
    | (size) "b_type b \<notin> {1, 2, 3, 4, 6, 8, 9}" by blast
  then show ?thesis
  proof cases
    case 1
    then show ?thesis using sw by (simp add: busi_switch_def parse_bind)
      (auto simp: bind_eq_Some_conv tobuf_sql login_handle_quiet [OF q])
  next
    case 2
    then show ?thesis using sw by (simp add: busi_switch_def parse_bind)
      (auto simp: bind_eq_Some_conv tobuf_sql upload_handle_quiet [OF q])
  next
    case 3
    then show ?thesis using sw by (simp add: busi_switch_def parse_bind)
      (auto simp: bind_eq_Some_conv tobuf_sql download_handle_quiet [OF q])
  next
    case 4
    then show ?thesis using sw by (simp add: busi_switch_def parse_bind)
      (auto simp: bind_eq_Some_conv tobuf_sql delfile_handle_quiet [OF q])
  next
    case 5
    then show ?thesis using sw
      by (simp add: busi_switch_def parse_bind)
      (auto simp: bind_eq_Some_conv gfs_busi_delete_block_handle_def split: if_splits dest: sql_keeps.updates(3) [OF quiet_keeps [OF q]])
  next
    case 6
    then show ?thesis using sw
      by (simp add: busi_switch_def parse_bind)
      (auto simp: bind_eq_Some_conv gfs_busi_copy_block_handle_def split: if_splits dest: sql_keeps.updates(4) [OF quiet_keeps [OF q]])
  next
    case 7
    then show ?thesis using sw
      by (simp add: busi_switch_def parse_bind)
      (auto simp: bind_eq_Some_conv gfs_busi_heartbeat_handle_def split: if_splits)
  next
    case size
    then show ?thesis using sw by (simp add: busi_switch_def parse_bind)
      (auto simp: bind_eq_Some_conv tobuf_sql getfsize_handle_quiet [OF q])
  qed
qed

section \<open>A request is answered\<close>

text \<open>
  The message functions of a type leave the business object with a response in its buffer, or, for the
  notices, with the empty buffer it was made with.
\<close>

definition answer_types :: "u32 set" where "answer_types = {1, 2, 3, 4, 10}"
definition notice_types :: "u32 set" where "notice_types = {6, 8, 9}"

lemma notice_silent:
  assumes ok: "pool_ok (n_pool (nets s c))" and t: "b_type b \<in> notice_types" and sw: "busi_switch E c b s = Some (b', s')"
  shows "b' = b \<and> grows c [] s s'"
proof -
  consider "b_type b = 6" | "b_type b = 8" | "b_type b = 9" using t by (auto simp: notice_types_def)
  then show ?thesis
    by cases (use sw ok in \<open>simp_all add: busi_switch_def parse_bind\<close>,
      auto simp: bind_eq_Some_conv gfs_busi_delete_block_handle_def gfs_busi_copy_block_handle_def
        gfs_busi_heartbeat_handle_def gfs_busi_delete_block_tobuf_def gfs_busi_copy_block_tobuf_def
        gfs_busi_heartbeat_tobuf_def grows_def split: if_splits)
qed

lemma switch_answered:
  assumes "pool_ok (n_pool (nets s c))" and "b_type b \<in> answer_types" and "cast_head (b_img b) = Some h"
    and "busi_switch E c b s = Some (b', s')"
  shows "\<exists>leak. answered c b h leak s b' s' \<and> (b_type b \<noteq> 3 \<longrightarrow> leak = [])"
  using assms login_answered [OF assms(1) _ assms(3,4)] upload_answered [OF assms(1) _ assms(3,4)]
    download_answered [OF assms(1) _ assms(3,4)] delfile_answered [OF assms(1) _ assms(3,4)]
    getfsize_answered [OF assms(1) _ assms(3,4)]
  by (auto simp: answer_types_def)

text \<open>A connection between two packets: nothing waits to be sent and the socket is writable.\<close>

definition conn_ready :: "'w ns \<Rightarrow> addr \<Rightarrow> bool" where
  "conn_ready s c \<longleftrightarrow> buf_ok (n_sbuf (nets s c)) \<and> nb_pos (n_sbuf (nets s c)) = 0 \<and> 0 < nb_len (n_sbuf (nets s c))
     \<and> can_send s c \<and> pool_ok (n_pool (nets s c))"

lemma can_send_io: "io (nets s' c) = io (nets s c) \<Longrightarrow> can_send s' c = can_send s c"
  by (simp add: io_def can_send_def)

text \<open>What \<open>gfs_busi_handle\<close> does after the message functions: send the buffer and destroy the object.\<close>

lemma send_and_destory:
  assumes E: "healthy E out" and r: "conn_ready s c" and g: "grows c (new @ [(a_rsh b, n1), (a_rbuf b, n2), (a_busi b, n3)]) s s2"
    and sb: "a_sbuf b = NULL \<and> new = leak \<or> a_sbuf b \<noteq> NULL \<and> new = (a_sbuf b, n) # leak" and ok: "buf_ok (b_sbuf b)"
  obtains b3 s3 s' where "busi_send_loop (gfs_handle_tcp_send E hdl) c b s2 = Some (b3, s3)" and "gfs_busi_destory c b3 s3 = Some s'"
    and "conn_ready s' c" and "n_rbuf (nets s' c) = n_rbuf (nets s c)" and "ledger s' c = leak @ ledger s c"
    and "out (world s') = out (world s2) @ buf_bytes (b_sbuf b)"
proof -
  have sb2: "n_sbuf (nets s2 c) = n_sbuf (nets s c)" "n_rbuf (nets s2 c) = n_rbuf (nets s c)"
    using io_eqD [OF growsD(1) [OF g]] by simp_all
  have c2: "can_send s2 c" using can_send_io [OF growsD(1) [OF g]] r by (simp add: conn_ready_def)
  obtain w sb src where sl: "busi_send_loop (gfs_handle_tcp_send E hdl) c b s2 = Some (b\<lparr>b_sbuf := src\<rparr>, set_world w (set_sbuf c sb s2))"
      "out w = out (world s2) @ buf_bytes (b_sbuf b)" "buf_ok sb" "nb_pos sb = 0" "nb_len sb = nb_len (n_sbuf (nets s2 c))"
    using busi_send_all [OF E ok, of s2 c hdl] r c2 growsD(3) [OF g] by (auto simp: conn_ready_def sb2)
  define s3 where "s3 = set_world w (set_sbuf c sb s2)"
  have n3: "n_pool (nets s3 c) = n_pool (nets s2 c)" "n_sbuf (nets s3 c) = sb" "n_rbuf (nets s3 c) = n_rbuf (nets s c)" "world s3 = w"
    by (simp_all add: s3_def sb2)
  have "ledger s3 c = new @ (a_rsh b, n1) # (a_rbuf b, n2) # (a_busi b, n3) # ledger s c"
    using growsD(3) [OF g] by (simp add: n3)
  then obtain s' where d: "gfs_busi_destory c (b\<lparr>b_sbuf := src\<rparr>) s3 = Some s'" "io (nets s' c) = io (nets s3 c)"
      "pool_ok (n_pool (nets s' c))" "ledger s' c = leak @ ledger s c" "sql s' = sql s3"
    using destory_ok [of s3 c new "b\<lparr>b_sbuf := src\<rparr>" n1 n2 n3 "ledger s c" leak n] growsD(2) [OF g] sb by (auto simp: n3)
  have "can_send s3 c" using c2 by (simp add: can_send_def s3_def)
  then have "conn_ready s' c"
    using d r sl io_eqD [OF d(2)] can_send_io [OF d(2)] n3 sb2 by (simp add: conn_ready_def)
  then show ?thesis using that [OF sl(1) [folded s3_def] d(1)] d io_eqD [OF d(2)] n3 sl(2) by simp
qed

text \<open>The whole of \<open>gfs_busi_handle\<close>, where the message functions run into no undefined behaviour.\<close>

definition switch_defined :: "'w env \<Rightarrow> addr \<Rightarrow> byte list \<Rightarrow> 'w ns \<Rightarrow> bool" where
  "switch_defined E c data s \<longleftrightarrow> (case gfs_busi_create E c data s of
     Some (Some b, s1) \<Rightarrow> busi_switch E c b s1 \<noteq> None | _ \<Rightarrow> True)"

lemma cast_head_append: "16 \<le> length data \<Longrightarrow> cast_head (data @ xs) = cast_head data"
  by (simp add: cast_head_def ld32_append1)

lemma rsp_size_types: "t \<in> answer_types \<union> notice_types \<Longrightarrow> rsp_size t \<noteq> 0 \<and> 1 \<le> t \<and> t \<le> 10"
  by (auto simp: answer_types_def notice_types_def rsp_size_def)

lemma busi_handle_spec:
  assumes E: "healthy E out" and q: "db_quiet (db E) out" and r: "conn_ready s c"
    and len: "16 \<le> length data" "length data \<le> 2048" and h: "cast_head data = Some h"
    and t: "ntohl (h_type h) \<in> answer_types \<union> notice_types" and d: "switch_defined E c data s"
  obtains s' m leak where "gfs_busi_handle E (gfs_handle_tcp_send E hdl) c data s = Some (GFS_OK, s')"
    and "conn_ready s' c" and "n_rbuf (nets s' c) = n_rbuf (nets s c)" and "ledger s' c = leak @ ledger s c"
    and "ntohl (h_type h) \<noteq> 3 \<Longrightarrow> leak = []" and "out (world s') = out (world s) @ m"
    and "if ntohl (h_type h) \<in> answer_types then replies h m else m = []"
proof -
  let ?t = "ntohl (h_type h)"
  have ok: "pool_ok (n_pool (nets s c))" using r by (simp add: conn_ready_def)
  have w: "ld32 data 8 = Some (h_type h)" using h by (auto simp: cast_head_def bind_eq_Some_conv)
  obtain b s1 n where cr: "gfs_busi_create E c data s = Some (Some b, s1)"
      and g1: "grows c [(a_rsh b, n), (a_rbuf b, of_nat (length data)), (a_busi b, 112)] s s1"
      and b: "b_type b = ?t" "b_sbuf b = empty_buf" "a_sbuf b = NULL"
        "b_img b = data @ junk E s1 (length data) (usable (length data))" and sq1: "sql s1 = sql s"
    using create_ok [OF ok len w] rsp_size_types [OF t] by metis
  obtain b2 s2 where sw: "busi_switch E c b s1 = Some (b2, s2)" using d cr by (auto simp: switch_defined_def)
  have w2: "out (world s2) = out (world s)" using switch_quiet [OF q sw] sq1 by simp
  have hb: "cast_head (b_img b) = Some h" using h b(4) len by (simp add: cast_head_append)
  have "\<exists>new nn leak. grows c new s1 s2 \<and> a_rsh b2 = a_rsh b \<and> a_rbuf b2 = a_rbuf b \<and> a_busi b2 = a_busi b
      \<and> (a_sbuf b2 = NULL \<and> new = leak \<or> a_sbuf b2 \<noteq> NULL \<and> new = (a_sbuf b2, nn) # leak) \<and> buf_ok (b_sbuf b2)
      \<and> (?t \<noteq> 3 \<longrightarrow> leak = []) \<and> (if ?t \<in> answer_types then replies h (buf_bytes (b_sbuf b2)) else buf_bytes (b_sbuf b2) = [])"
  proof (cases "?t \<in> answer_types")
    case True
    then obtain leak where "answered c b h leak s1 b2 s2" "?t \<noteq> 3 \<longrightarrow> leak = []"
      using switch_answered [OF growsD(2) [OF g1] _ hb sw] b(1) by auto
    then show ?thesis using True by (auto simp: answered_def)
  next
    case False
    then have "b2 = b" "grows c [] s1 s2" using notice_silent [OF growsD(2) [OF g1] _ sw] b(1) t by auto
    then show ?thesis using False b by (intro exI [of _ "[]"]) (simp add: empty_buf_def buf_ok_def buf_bytes_def)
  qed
  then obtain new nn leak where g2: "grows c new s1 s2" and ad: "a_rsh b2 = a_rsh b" "a_rbuf b2 = a_rbuf b" "a_busi b2 = a_busi b"
      and sb: "a_sbuf b2 = NULL \<and> new = leak \<or> a_sbuf b2 \<noteq> NULL \<and> new = (a_sbuf b2, nn) # leak" "buf_ok (b_sbuf b2)"
      and rep: "?t \<noteq> 3 \<longrightarrow> leak = []" "if ?t \<in> answer_types then replies h (buf_bytes (b_sbuf b2)) else buf_bytes (b_sbuf b2) = []"
    by blast
  obtain b3 s3 s' where f: "busi_send_loop (gfs_handle_tcp_send E hdl) c b2 s2 = Some (b3, s3)" "gfs_busi_destory c b3 s3 = Some s'"
      "conn_ready s' c" "n_rbuf (nets s' c) = n_rbuf (nets s c)" "ledger s' c = leak @ ledger s c"
      "out (world s') = out (world s2) @ buf_bytes (b_sbuf b2)"
    using send_and_destory [OF E r _ sb, of n "of_nat (length data)" 112 s2 hdl] grows_trans [OF g1 g2] by (auto simp: ad)
  have "\<not> b_type b \<notin> {1, 2, 3, 4, 6, 8, 9, 10}" using b(1) t by (auto simp: answer_types_def notice_types_def)
  then have "gfs_busi_handle E (gfs_handle_tcp_send E hdl) c data s = Some (GFS_OK, s')"
    using cr sw f(1,2) by (simp add: gfs_busi_handle_def)
  then show ?thesis using that f rep w2 by simp
qed

section \<open>A buffer of packets is served in order\<close>

definition skip_packet :: "addr \<Rightarrow> byte list \<Rightarrow> 'w ns \<Rightarrow> 'w ns" where
  "skip_packet c p = upd_net c (n_rbuf_update (\<lambda>b. b\<lparr>nb_hd := nb_hd b + length p\<rparr>))"

text \<open>The requests are handled one after the other, and none runs into undefined behaviour.\<close>

fun requests_defined ::
  "'w env \<Rightarrow> (addr \<Rightarrow> 'w ns \<Rightarrow> (int \<times> 'w ns) option) \<Rightarrow> addr \<Rightarrow> byte list list \<Rightarrow> 'w ns \<Rightarrow> bool" where
  "requests_defined E send c [] s \<longleftrightarrow> True"
| "requests_defined E send c (p # ps) s \<longleftrightarrow> switch_defined E c p (skip_packet c p s)
     \<and> (case gfs_busi_handle E send c p (skip_packet c p s) of None \<Rightarrow> True | Some (_, s') \<Rightarrow> requests_defined E send c ps s')"

text \<open>A packet that the server knows, and what is sent for it.\<close>

definition request :: "byte list \<Rightarrow> bool" where
  "request p \<longleftrightarrow> well_formed p \<and> (case cast_head p of None \<Rightarrow> False | Some h \<Rightarrow> ntohl (h_type h) \<in> answer_types \<union> notice_types)"

definition answer_to :: "byte list \<Rightarrow> byte list \<Rightarrow> bool" where
  "answer_to p m \<longleftrightarrow> (case cast_head p of None \<Rightarrow> False
     | Some h \<Rightarrow> if ntohl (h_type h) \<in> answer_types then replies h m else m = [])"

lemma skip_packet_simps [simp]:
  "world (skip_packet c p s) = world s" "conn_ready (skip_packet c p s) c = conn_ready s c"
  "n_rbuf (nets (skip_packet c p s) c) = (n_rbuf (nets s c))\<lparr>nb_hd := nb_hd (n_rbuf (nets s c)) + length p\<rparr>"
  "ledger (skip_packet c p s) c = ledger s c"
  by (simp_all add: skip_packet_def conn_ready_def can_send_def)

lemma skip_packet_buf:
  assumes "buf_ok b" and "buf_bytes b = p @ rest"
  shows "buf_ok (b\<lparr>nb_hd := nb_hd b + length p\<rparr>)" and "buf_bytes (b\<lparr>nb_hd := nb_hd b + length p\<rparr>) = rest"
proof -
  show "buf_ok (b\<lparr>nb_hd := nb_hd b + length p\<rparr>)" using assms buf_bytes_prefix(1) [OF assms] by (simp add: buf_ok_def)
  have "drop (length p) (drop (nb_hd b) (take (nb_pos b) (nb_data b))) = rest"
    using assms(2) by (simp add: buf_bytes_def)
  then show "buf_bytes (b\<lparr>nb_hd := nb_hd b + length p\<rparr>) = rest" by (simp add: buf_bytes_def add.commute)
qed

lemma parse_loop_step:
  assumes ok: "buf_ok (n_rbuf (nets s c))" and p: "well_formed p" and b: "buf_bytes (n_rbuf (nets s c)) = p @ rest"
    and hdl: "gfs_busi_handle E send c p (skip_packet c p s) = Some (GFS_OK, s')"
  shows "parse_loop E send c s = parse_loop E send c s'"
proof -
  let ?rb = "n_rbuf (nets s c)"
  note pre = buf_bytes_prefix [OF ok b]
  have ld: "ldbytes (length p) (nb_data ?rb) (nb_hd ?rb) = Some p"
    using pre(2) pre(3) [of 0 "length p"] by (simp add: ldbytes_def)
  have sk: "upd_net c (n_rbuf_update (\<lambda>b. b\<lparr>nb_hd := nat (int (nb_hd b) + int (length p))\<rparr>)) s = skip_packet c p s"
    by (simp add: skip_packet_def nat_int_add)
  show ?thesis
    using parse_well_formed [OF ok p b] hdl ld by (subst parse_loop.simps) (simp add: sk GFS_OK_def)
qed

lemma parse_loop_end:
  assumes "buf_ok (n_rbuf (nets s c))" and "buf_bytes (n_rbuf (nets s c)) = []"
  shows "parse_loop E send c s = Some (True, s)"
proof -
  have e: "nb_hd (n_rbuf (nets s c)) = nb_pos (n_rbuf (nets s c))"
    using length_buf_bytes [OF assms(1)] assms by (simp add: buf_ok_def)
  then have "gfs_net_packet_parse_tcp (n_rbuf (nets s c)) = Some (None, 0)"
    by (simp add: gfs_net_packet_parse_tcp_def packet_scan_end)
  then show ?thesis by (subst parse_loop.simps) (simp add: upd_net_id)
qed

lemma serve_packets:
  assumes E: "healthy E out" and q: "db_quiet (db E) out"
  shows "conn_ready s c \<Longrightarrow> buf_ok (n_rbuf (nets s c)) \<Longrightarrow> buf_bytes (n_rbuf (nets s c)) = concat ps \<Longrightarrow>
    \<forall>p \<in> set ps. request p \<Longrightarrow> requests_defined E (gfs_handle_tcp_send E hdl) c ps s \<Longrightarrow>
    \<exists>s' ms. parse_loop E (gfs_handle_tcp_send E hdl) c s = Some (True, s') \<and> conn_ready s' c
      \<and> buf_ok (n_rbuf (nets s' c)) \<and> buf_bytes (n_rbuf (nets s' c)) = []
      \<and> out (world s') = out (world s) @ concat ms \<and> list_all2 answer_to ps ms"
proof (induction ps arbitrary: s)
  case Nil
  then show ?case using parse_loop_end [of s c E] by auto
next
  case (Cons p ps)
  have p: "well_formed p" using Cons.prems(4) by (simp add: request_def)
  obtain h where h: "cast_head p = Some h" "ntohl (h_type h) \<in> answer_types \<union> notice_types"
    using Cons.prems(4) by (auto simp: request_def split: option.splits)
  have len: "16 \<le> length p" "length p \<le> 2048" using p by (auto simp: well_formed_def)
  have b: "buf_bytes (n_rbuf (nets s c)) = p @ concat ps" using Cons.prems(3) by simp
  obtain s1 m leak where s1: "gfs_busi_handle E (gfs_handle_tcp_send E hdl) c p (skip_packet c p s) = Some (GFS_OK, s1)"
      "conn_ready s1 c" "n_rbuf (nets s1 c) = n_rbuf (nets (skip_packet c p s) c)"
      "out (world s1) = out (world s) @ m" "if ntohl (h_type h) \<in> answer_types then replies h m else m = []"
    using busi_handle_spec [OF E q _ len h, of "skip_packet c p s" c hdl] Cons.prems(1,5) by (metis requests_defined.simps(2) skip_packet_simps(1,2))
  note sb = skip_packet_buf [OF Cons.prems(2) b]
  have "requests_defined E (gfs_handle_tcp_send E hdl) c ps s1" using Cons.prems(5) s1(1) by simp
  then obtain s' ms where s': "parse_loop E (gfs_handle_tcp_send E hdl) c s1 = Some (True, s')" "conn_ready s' c"
      "buf_ok (n_rbuf (nets s' c))" "buf_bytes (n_rbuf (nets s' c)) = []"
      "out (world s') = out (world s1) @ concat ms" "list_all2 answer_to ps ms"
    using Cons.IH [of s1] s1(2,3) sb Cons.prems(4) by auto
  have "answer_to p m" using s1(5) h by (simp add: answer_to_def)
  then show ?case
    using s' s1(4) parse_loop_step [OF Cons.prems(2) p b s1(1)]
    by (intro exI [of _ s'] exI [of _ "m # ms"]) simp
qed

section \<open>Requests without undefined behaviour\<close>

lemma hextostr_16: "length bs = 16 \<Longrightarrow> \<exists>str. gfs_hextostr bs 16 = Some (32, str) \<and> length str = 32"
  by (simp add: gfs_hextostr_def)

lemma delfile_parse_total:
  assumes "36 \<le> length img"
  shows "\<exists>r. gfs_busi_delete_file_parse img = Some r \<and> (\<forall>req. r = Inr req \<longrightarrow> length (fq_hash req) = 16)"
proof -
  obtain h where h: "cast_head img = Some h" using assms by (auto simp: cast_head_def ld32_mono)
  obtain x where x: "ld32 img 32 = Some x" using ld32_Some [of 32 img] assms by auto
  have l: "ldbytes 16 img 16 = Some (take 16 (drop 16 img))" using assms by (simp add: ldbytes_Some)
  show ?thesis using h x l assms by (auto simp: gfs_busi_delete_file_parse_def Let_def)
qed

lemma delfile_handle_total:
  assumes "mysql_pool (sql s) \<noteq> None" and "length (fq_hash req) = 16"
  shows "\<exists>rsp s'. gfs_busi_delete_file_handle E req s = Some (rsp, s') \<and> fr_head rsp = rsp_head 24 (fq_head req) (ntohl (r_rtn (fr_head rsp)))"
proof -
  obtain hash where h: "gfs_hextostr (fq_hash req) 16 = Some (32, hash)" "length hash = 32" using hextostr_16 [OF assms(2)] by blast
  obtain ret q where q: "gfs_mysql_delfile (db E) hash (sql s) = Some (ret, q)" using delfile_total [OF assms(1), of hash "db E"] h by auto
  show ?thesis using h q by (auto simp: gfs_busi_delete_file_handle_def Let_def rsp_head_def)
qed

lemma delfile_tobuf_total:
  assumes "fr_head rsp = rsp_head 24 h rtn"
  shows "gfs_busi_delete_file_tobuf E c rsp b s \<noteq> None"
proof -
  obtain a s1 where m: "ns_malloc c 24 s = (a, s1)" by fastforce
  have "length (rsp_delfile_bytes rsp) = 24" by (simp add: rsp_delfile_bytes_def)
  then show ?thesis using m by (auto simp: gfs_busi_delete_file_tobuf_def assms ldbytes_all)
qed

lemma delfile_defined:
  assumes ok: "pool_ok (n_pool (nets s c))" and w: "well_formed data" and h: "cast_head data = Some h" "ntohl (h_type h) = 4"
    and db: "mysql_pool (sql s) \<noteq> None"
  shows "switch_defined E c data s"
proof -
  have len: "16 \<le> length data" "length data \<le> 2048" using w by (auto simp: well_formed_def)
  have t: "ld32 data 8 = Some (h_type h)" using h by (auto simp: cast_head_def bind_eq_Some_conv)
  have r: "rsp_size (ntohl (h_type h)) \<noteq> 0" "1 \<le> ntohl (h_type h)" "ntohl (h_type h) \<le> 10"
    using h(2) by (simp_all add: rsp_size_def)
  obtain b s1 where cr: "gfs_busi_create E c data s = Some (Some b, s1)" and b: "b_type b = 4"
      "b_img b = data @ junk E s1 (length data) (usable (length data))" and sq: "sql s1 = sql s"
    by (rule create_ok [OF ok len t r, of E]) (simp add: h(2))
  have "ntohl (h_len h) = of_nat (length data)"
  proof -
    have "take 4 data = rev (bytes32 (of_nat (length data)))" using w by (simp add: well_formed_def)
    then have "ld32 data 0 = Some (htonl (of_nat (length data)))" using len by (simp add: ld32_mono htonl_def)
    then show ?thesis using h(1) by (auto simp: cast_head_def bind_eq_Some_conv)
  qed
  show ?thesis
  proof (cases "length data < 36")
    case True
    have "cast_head (b_img b) = Some h" using h b(2) len by (simp add: cast_head_append)
    moreover have "ntohl (h_len h) \<noteq> 36"
    proof
      assume "ntohl (h_len h) = 36"
      then have "unat (of_nat (length data) :: u32) = 36" using \<open>ntohl (h_len h) = of_nat (length data)\<close> by simp
      then show False using unat_of_nat_u32 [of "length data"] True by simp
    qed
    ultimately obtain rsp where "gfs_busi_delete_file_parse (b_img b) = Some (Inl rsp)"
        and rh: "fr_head rsp = rsp_head 24 (h\<lparr>h_len := ntohl (h_len h)\<rparr>) GFS_BUSI_RTN_MSG_FORMAT_ERR"
      by (simp add: gfs_busi_delete_file_parse_def Let_def)
    then show ?thesis using cr b(1) delfile_tobuf_total [OF rh, of E c b s1]
      by (simp add: switch_defined_def busi_switch_def)
  next
    case False
    then obtain r where r: "gfs_busi_delete_file_parse (b_img b) = Some r" "\<And>req. r = Inr req \<Longrightarrow> length (fq_hash req) = 16"
      using delfile_parse_total [of "b_img b"] b(2) by auto
    show ?thesis
    proof (cases r)
      case (Inl rsp)
      then have "\<exists>h rtn. fr_head rsp = rsp_head 24 h rtn"
        using r(1) by (auto simp: gfs_busi_delete_file_parse_def bind_eq_Some_conv Let_def split: if_splits) blast
      then show ?thesis using cr b r Inl delfile_tobuf_total by (fastforce simp: switch_defined_def busi_switch_def)
    next
      case (Inr req)
      then obtain rsp s2 where "gfs_busi_delete_file_handle E req s1 = Some (rsp, s2)"
          "fr_head rsp = rsp_head 24 (fq_head req) (ntohl (r_rtn (fr_head rsp)))"
        using delfile_handle_total [of s1 req E] r(2) db sq by auto
      then show ?thesis using cr b r Inr delfile_tobuf_total by (fastforce simp: switch_defined_def busi_switch_def)
    qed
  qed
qed

section \<open>Properties\<close>


text \<open>A request to delete a file: 36 bytes, identification 7, type 4, a hash of sixteen bytes.\<close>

definition sample_delete :: "byte list" where
  "sample_delete = [0, 0, 0, 36, 0, 0, 0, 7, 0, 0, 0, 4, 0, 0, 0, 0, 1, 2, 3, 4, 5, 6, 7, 8, 9, 10, 11, 12, 13, 14, 15, 16, 0, 0, 0, 0]"

lemma sample_delete_ok:
  "well_formed sample_delete" "request sample_delete"
  "cast_head sample_delete = Some \<lparr>h_len = htonl 36, h_id = htonl 7, h_type = htonl 4, h_encrypt = 0\<rparr>"
proof -
  show w: "well_formed sample_delete" by (simp add: well_formed_def sample_delete_def bytes32_def)
  show h: "cast_head sample_delete = Some \<lparr>h_len = htonl 36, h_id = htonl 7, h_type = htonl 4, h_encrypt = 0\<rparr>"
    by (simp add: cast_head_def sample_delete_def ld32_def ldbytes_def htonl_def bytes32_def)
  show "request sample_delete" using w h by (simp add: request_def answer_types_def)
qed

lemma sample_quiet: "db_quiet (db sample_env) out"
  by (simp add: db_quiet_def sample_env_def sample_db_def)

lemma sample_ready: "conn_ready (upd_net c (\<lambda>n. n\<lparr>n_rbuf := b\<rparr>) sample_ns) c" "conn_ready sample_ns c"
  by (simp_all add: conn_ready_def can_send_def sample_ns_def sample_net_def buf_ok_def pool_ok_def GFS_NET_READY_def
      GFS_EVENT_WRITE_def)





definition sample_heartbeat :: "byte list" where
  "sample_heartbeat = [0, 0, 0, 28, 0, 0, 0, 7, 0, 0, 0, 9, 0, 0, 0, 0, 0, 0, 0, 1, 0, 0, 0, 50, 0, 0, 0, 0]"




text \<open>
  C38: a packet whose type is not between 1 and 10 is refused with \<open>GFS_ERR\<close>, and the two blocks that
  \<open>gfs_busi_create\<close> had allocated for it stay allocated in the pool of the connection.
\<close>

theorem unknown_type_leaks:
  assumes "pool_ok (n_pool (nets s c))" and "well_formed data" and "cast_head data = Some h"
    and "ntohl (h_type h) < 1 \<or> 10 < ntohl (h_type h)"
  shows "\<exists>s' a b. gfs_busi_handle E send c data s = Some (GFS_ERR, s')
    \<and> mp_live (n_pool (nets s' c)) = [(a, of_nat (length data)), (b, 112)] @ mp_live (n_pool (nets s c))"
proof -
  have len: "16 \<le> length data" "length data \<le> 2048" using assms(2) by (auto simp: well_formed_def)
  have w: "ld32 data 8 = Some (h_type h)" and i: "ld32 data 4 = Some (h_id h)"
    using assms(3) by (auto simp: cast_head_def bind_eq_Some_conv)
  obtain x1 s1 where m1: "ns_malloc c 112 s = (x1, s1)" by fastforce
  note g1 = malloc_grows [OF assms(1) m1, simplified]
  have l: "(of_nat (length data) :: u32) \<noteq> 0"
  proof
    assume "(of_nat (length data) :: u32) = 0"
    then have "unat (of_nat (length data) :: u32) = 0" by simp
    then show False using unat_of_nat_u32 [of "length data"] len by simp
  qed
  obtain x2 s2 where m2: "ns_malloc c (of_nat (length data)) s1 = (x2, s2)" by fastforce
  note g2 = malloc_grows [OF growsD(2) [OF g1(2)] m2 l]
  have "gfs_busi_create E c data s = Some (None, s2)"
    using g1(1) g2(1) m1 m2 i w assms(4) unfolding gfs_busi_create_def by simp
  then have "gfs_busi_handle E send c data s = Some (GFS_ERR, s2)" by (simp add: gfs_busi_handle_def)
  moreover have "mp_live (n_pool (nets s2 c)) = [(x2, of_nat (length data)), (x1, 112)] @ mp_live (n_pool (nets s c))"
    using growsD(3) [OF g2(2)] growsD(3) [OF g1(2)] by simp
  ultimately show ?thesis by blast
qed

theorem unknown_type_leaks_witness:
  "\<exists>s' a b. gfs_busi_handle sample_env (tcp_send sample_env) 10 [0, 0, 0, 16, 0, 0, 0, 7, 0, 0, 0, 11, 0, 0, 0, 0] sample_ns = Some (GFS_ERR, s')
    \<and> mp_live (n_pool (nets s' 10)) = [(a, 16), (b, 112)]"
proof -
  let ?p = "[0, 0, 0, 16, 0, 0, 0, 7, 0, 0, 0, 11, 0, 0, 0, 0] :: byte list"
  have "well_formed ?p" by (simp add: well_formed_def bytes32_def)
  moreover have "cast_head ?p = Some \<lparr>h_len = htonl 16, h_id = htonl 7, h_type = htonl 11, h_encrypt = 0\<rparr>"
    by (simp add: cast_head_def ld32_def ldbytes_def htonl_def bytes32_def)
  moreover have "pool_ok (n_pool (nets sample_ns 10))" "mp_live (n_pool (nets sample_ns 10)) = []"
    by (simp_all add: sample_ns_def sample_net_def pool_ok_def)
  ultimately show ?thesis using unknown_type_leaks [of sample_ns 10 ?p _ sample_env "tcp_send sample_env"] by auto
qed

text \<open>
  C4: a data server that logs in with consistent sizes, while the directory has a free node and the
  database accepts it, is answered with \<open>GFS_BUSI_RTN_OK\<close>; afterwards its id leads to its connection, every
  other id to where it led before, and the connection carries the id, the port and the percentage of free
  space of the request.
\<close>

theorem login_registers:
  assumes "h_encrypt (lq_head req) = 0" and "lq_type req = GFS_CLIENT_TYPE_DS" and "lq_remain req \<le> lq_disk req" and "lq_disk req \<noteq> 0"
    and "gfs_mysql_login (db E) (lq_dsid req) (lq_disk req) (lq_remain req) (sql s) = Some (SQL_OK, q)"
    and "map_ok (dsmap s) xs ys" and "ys \<noteq> []"
  shows "\<exists>rsp s'. gfs_busi_login_handle E c req s = Some (rsp, s') \<and> r_rtn (lr_head rsp) = htonl GFS_BUSI_RTN_OK
    \<and> gfs_net_map_get (lq_dsid req) (dsmap s') = Some c
    \<and> (\<forall>k. k \<noteq> lq_dsid req \<longrightarrow> gfs_net_map_get k (dsmap s') = gfs_net_map_get k (dsmap s))
    \<and> u_dsid (n_user (nets s' c)) = lq_dsid req \<and> u_port (n_user (nets s' c)) = lq_port req
    \<and> u_cfft (n_user (nets s' c)) = ucast ((lq_remain req * 100) div lq_disk req)"
proof -
  obtain m xs' ys' where m: "gfs_net_map_add (lq_dsid req) c (dsmap s) = Some (GFS_OK, m)" "map_ok m xs' ys'"
      "map_abs m xs' = (map_abs (dsmap s) xs)(lq_dsid req \<mapsto> c)"
    using map_add_abs [OF assms(6,7), of "lq_dsid req" c] by blast
  have "\<not> lq_remain req > lq_disk req" using assms(3) by simp
  then have "gfs_busi_login_handle E c req s = Some (\<lparr>lr_head = rsp_head 28 (lq_head req) GFS_BUSI_RTN_OK,
      lr_bsize = htonl (g_block_size s), lr_separate = 0\<rparr>, (upd_net c (n_user_update (login_user req)) (s\<lparr>sql := q\<rparr>))\<lparr>dsmap := m\<rparr>)"
    using assms(1,2,4,5) m(1) unfolding gfs_busi_login_handle_def
    by (simp add: GFS_CLIENT_TYPE_DS_def GFS_CLIENT_TYPE_PS_def upd_net_def)
  then show ?thesis using map_get_abs [OF m(2)] map_get_abs [OF assms(6)] m(3) by (simp add: login_user_def)
qed

definition sample_login :: "u64 \<Rightarrow> u64 \<Rightarrow> gfs_busi_req_login" where
  "sample_login remain disk = \<lparr>lq_head = \<lparr>h_len = 48, h_id = 7, h_type = htonl 1, h_encrypt = 0\<rparr>, lq_type = 1, lq_dsid = 42,
     lq_remain = remain, lq_disk = disk, lq_port = 9000, lq_separate = 0\<rparr>"

lemma sample_sql_login:
  assumes "length (dec_nat (unat d)) + length (dec_nat (unat n)) + length (dec_nat (unat m)) < 45"
  shows "gfs_mysql_login sample_db d n m (sample_sql w) = Some (SQL_OK, sample_sql w)"
  using assms by (simp add: gfs_mysql_login_def Sql.sql_update_def sql_call_def gfs_mysql_get_def gfs_mysql_put_def sprintf_buf_def
      sample_sql_def sample_db_def sample_reply_def pool_push_def)

theorem login_registers_witness:
  "\<exists>rsp s'. gfs_busi_login_handle sample_env 10 (sample_login 50 100) sample_ns = Some (rsp, s')
    \<and> gfs_net_map_get 42 (dsmap s') = Some 10 \<and> u_cfft (n_user (nets s' 10)) = 50"
proof -
  obtain ys where ys: "map_ok (dsmap sample_ns) [] ys" "ys \<noteq> []" using sample_map_ok by (auto simp: sample_ns_def)
  have "gfs_mysql_login (db sample_env) 42 100 50 (sql sample_ns) = Some (SQL_OK, sql sample_ns)"
    using sample_sql_login [of 42 100 50 "[]"] length_dec_u32 [of 42] length_dec_nat_le [of 100 5] length_dec_nat_le [of 50 5]
    by (simp add: sample_env_def sample_ns_def)
  then show ?thesis
    using login_registers [of "sample_login 50 100" sample_env sample_ns _ "[]" ys 10] ys
    by (auto simp: sample_login_def GFS_CLIENT_TYPE_DS_def)
qed



text \<open>
  C27: a heartbeat never stores a weight above 100: if the weight of every connection is at most 100, it is so
  afterwards, and no other connection is changed; an acceptable weight of a data server is stored as sent.
\<close>

theorem heartbeat_weight:
  assumes "\<forall>a. u_weight (n_user (nets s a)) \<le> 100"
  shows "(\<forall>a. u_weight (n_user (nets (gfs_busi_heartbeat_handle c req s) a)) \<le> 100)
    \<and> (\<forall>a. a \<noteq> c \<longrightarrow> nets (gfs_busi_heartbeat_handle c req s) a = nets s a)
    \<and> (h_encrypt (hb_head req) = 0 \<and> u_ctype (n_user (nets s c)) \<noteq> GFS_CLIENT_TYPE_PS \<and> hb_weighted req \<le> 100 \<longrightarrow>
        u_weight (n_user (nets (gfs_busi_heartbeat_handle c req s) c)) = hb_weighted req)"
  using assms by (auto simp: gfs_busi_heartbeat_handle_def not_less)

theorem heartbeat_weight_witness:
  "u_weight (n_user (nets (gfs_busi_heartbeat_handle 10 \<lparr>hb_head = \<lparr>h_len = 28, h_id = 0, h_type = 0, h_encrypt = 0\<rparr>,
     hb_type = 1, hb_weighted = 200\<rparr> sample_ns) 10)) \<le> 100"
  using heartbeat_weight [of sample_ns] by (simp add: sample_ns_def sample_net_def zero_user_def)

end
