(* ===== verification/Timer_Index.thy ===== *)
theory Timer_Index
  imports Timer Rbtree_Delete
begin

text \<open>
  The timers as a queue of deadlines: the tree of the timers is a red-black tree in the order of expiry
  time and address, a search finds a timer exactly when it is stored, adding a timer stores it, and the
  leftmost node is a timer that expires first. The interface \<open>deadlines\<close> is what the event loop and the
  connections rely on.
\<close>

section \<open>The order\<close>

definition timer_less :: "rbt \<Rightarrow> addr \<Rightarrow> addr \<Rightarrow> bool" where
  "timer_less t a b \<longleftrightarrow> key t a < key t b \<or> key t a = key t b \<and> a < b"

lemma timer_less_linear: "a \<noteq> b \<Longrightarrow> timer_less t a b \<or> timer_less t b a"
  by (auto simp: timer_less_def)

lemma timer_less_trans: "timer_less t a b \<Longrightarrow> timer_less t b c \<Longrightarrow> timer_less t a c"
  by (auto simp: timer_less_def)

lemma timer_less_asym: "timer_less t a b \<Longrightarrow> \<not> timer_less t b a"
  by (auto simp: timer_less_def)

definition timer_tree :: "rbt \<Rightarrow> addr tree \<Rightarrow> bool" where
  "timer_tree t T \<longleftrightarrow> rb_tree t T \<and> sorted_wrt (timer_less t) (inorder T) \<and> NULL \<notin> set_tree T"

section \<open>Searching\<close>

lemma lookup_timer_correct:
  "rbt_at t q p T \<Longrightarrow> sorted_wrt (timer_less t) (inorder T) \<Longrightarrow>
   lookup_timer_loop t timer p = Some (if timer \<in> set_tree T then GFS_OK else GFS_EVENT_NOTIMER_ERR)"
proof (induction T arbitrary: q p)
  case Leaf
  then show ?case by (subst lookup_timer_loop.simps) simp
next
  case (Node l a r)
  have s: "sorted_wrt (timer_less t) (inorder l)" "sorted_wrt (timer_less t) (inorder r)"
    and lo: "\<And>x. x \<in> set_tree l \<Longrightarrow> timer_less t x a" and hi: "\<And>x. x \<in> set_tree r \<Longrightarrow> timer_less t a x"
    using Node.prems(2) by (auto simp: sorted_wrt_append)
  have p: "p = a" "a \<noteq> rb_sentinel t" "rbt_at t a (lft t a) l" "rbt_at t a (rgt t a) r" using Node.prems(1) by auto
  consider "timer = a" | "timer_less t timer a" "timer \<noteq> a" | "timer_less t a timer" "timer \<noteq> a"
    using timer_less_linear by blast
  then show ?case
  proof cases
    case 1
    then show ?thesis using p by (subst lookup_timer_loop.simps) simp
  next
    case 2
    then have "timer \<notin> set_tree r" using hi timer_less_asym by blast
    then show ?thesis using 2 p Node.IH(1) [OF p(3) s(1)]
      by (subst lookup_timer_loop.simps) (auto simp: timer_less_def)
  next
    case 3
    then have "timer \<notin> set_tree l" using lo timer_less_asym by blast
    then show ?thesis using 3 p Node.IH(2) [OF p(4) s(2)]
      by (subst lookup_timer_loop.simps) (auto simp: timer_less_def)
  qed
qed

lemma lookup_timer: "timer_tree t T \<Longrightarrow>
  gfs_rbtree_lookup_timer_value t timer = Some (if timer \<in> set_tree T then GFS_OK else GFS_EVENT_NOTIMER_ERR)"
  using lookup_timer_correct [of t _ "rb_root t" T timer]
  by (auto simp: timer_tree_def rb_tree_def rbt_holds_def gfs_rbtree_lookup_timer_value_def)

lemma timer_min:
  assumes "timer_tree t T" and "T \<noteq> Leaf"
  shows "rb_root t \<noteq> rb_sentinel t \<and> gfs_rbtree_min t (rb_root t) = Some (hd (inorder T))
    \<and> hd (inorder T) \<in> set_tree T \<and> (\<forall>a \<in> set_tree T. key t (hd (inorder T)) \<le> key t a)"
proof -
  obtain q where h: "rbt_at t q (rb_root t) T" using assms(1) by (auto simp: timer_tree_def rb_tree_def rbt_holds_def)
  obtain x xs where x: "inorder T = x # xs" using assms(2) by (cases "inorder T") auto
  have "\<forall>a \<in> set xs. timer_less t x a" using assms(1) x by (simp add: timer_tree_def)
  then have "\<forall>a \<in> set (inorder T). key t x \<le> key t a" by (auto simp: x timer_less_def)
  then have "\<forall>a \<in> set_tree T. key t x \<le> key t a" by simp
  moreover have "x \<in> set_tree T" using x by (metis list.set_intros(1) set_inorder)
  ultimately show ?thesis
    using rbt_at_min [OF h assms(2)] rbt_at_rootD [OF h assms(2)] assms(1) x by (auto simp: timer_tree_def)
qed

section \<open>Adding\<close>

lemma insert_timer_descends: "descends gfs_rbtree_insert_timer_value (timer_less t node) node t"
  unfolding descends_def by (subst gfs_rbtree_insert_timer_value.simps) (auto simp: Let_def timer_less_def)

lemma timer_tree_insert:
  assumes t: "timer_tree t T" and n: "node \<notin> set_tree T" "node \<noteq> rb_sentinel t" "node \<noteq> NULL"
  shows "\<exists>t' T'. gfs_rbtree_insert gfs_rbtree_insert_timer_value node t = Some t' \<and> timer_tree t' T'
    \<and> set_tree T' = insert node (set_tree T) \<and> rb_frame (insert node (set_tree T)) t t'"
proof -
  have s: "sorted_wrt (timer_less t) (inorder T)" and rb: "rb_tree t T" using t by (auto simp: timer_tree_def)
  have "sorted_wrt (\<lambda>a b. timer_less t node a \<longrightarrow> timer_less t node b) (inorder T)"
    by (rule sorted_wrt_mono_rel [OF _ s]) (blast intro: timer_less_trans)
  then obtain t' T' where i: "gfs_rbtree_insert gfs_rbtree_insert_timer_value node t = Some t'" and T': "rb_tree t' T'"
      and io: "inorder T' = filter (\<lambda>a. \<not> timer_less t node a) (inorder T) @ node # filter (timer_less t node) (inorder T)"
      and f: "rb_frame (insert node (set_tree T)) t t'"
    using insert_correct [OF rb insert_timer_descends n(1,2)] by blast
  let ?lo = "filter (\<lambda>a. \<not> timer_less t node a) (inorder T)" and ?hi = "filter (timer_less t node) (inorder T)"
  have lo: "timer_less t x node" if "x \<in> set ?lo" for x
    using that n(1) timer_less_linear [of x node t] by auto
  have "timer_less t x y" if "x \<in> set ?lo" "y \<in> set (node # ?hi)" for x y
    using that lo [OF that(1)] timer_less_trans [of t x node y] by auto
  then have "sorted_wrt (timer_less t) (inorder T')"
    unfolding io sorted_wrt_append sorted_wrt.simps using s sorted_wrt_filter by auto
  moreover have "timer_less t' = timer_less t" using f by (auto simp: rb_frame_def timer_less_def fun_eq_iff)
  moreover have "set_tree T' = insert node (set_tree T)" using io by (auto simp flip: set_inorder)
  ultimately show ?thesis using i T' f n(3) t by (auto simp: timer_tree_def)
qed

text \<open>Writing a node that is not stored does not change the tree.\<close>

lemma rbt_at_cong:
  "(\<And>a. a \<in> set_tree T \<Longrightarrow> rb_nodes t' a = rb_nodes t a) \<Longrightarrow> rb_sentinel t' = rb_sentinel t \<Longrightarrow> rbt_at t' q p T = rbt_at t q p T"
  by (induction T arbitrary: q p) auto

lemma timer_tree_frame:
  assumes t: "timer_tree t T" and eq: "\<And>a. a \<noteq> x \<Longrightarrow> rb_nodes t' a = rb_nodes t a" "rb_sentinel t' = rb_sentinel t" "rb_root t' = rb_root t"
    and x: "x \<notin> set_tree T" "x \<noteq> rb_sentinel t"
  shows "timer_tree t' T"
proof -
  have n: "rb_nodes t' a = rb_nodes t a" if "a \<in> set_tree T" for a using that x(1) eq(1) by metis
  have "invc (red t') T = invc (red t) T" "invh (red t') T = invh (red t) T" "root_red (red t') T = root_red (red t) T"
    using n colour_cong [of T "red t'" "red t"] by auto
  moreover have "sorted_wrt (timer_less t') (inorder T)"
    by (rule sorted_wrt_mono_rel [of _ "timer_less t"]) (use t n in \<open>auto simp: timer_tree_def timer_less_def\<close>)
  moreover have "rbt_holds t' T" using t rbt_at_cong [OF n eq(2)] by (simp add: timer_tree_def rb_tree_def rbt_holds_def eq(3))
  ultimately show ?thesis using t x(2) eq by (auto simp: timer_tree_def rb_tree_def)
qed

lemma zero_node_simps [simp]: "rb_sentinel (zero_node a t) = rb_sentinel t" "rb_root (zero_node a t) = rb_root t"
  by (simp_all add: zero_node_def upd_node_def)

lemma zero_node_fields:
  "rb_nodes (set_key x k (zero_node x t)) a = (if a = x then \<lparr>nd_key = k, nd_left = NULL, nd_right = NULL, nd_parent = NULL, nd_red = False\<rparr>
     else rb_nodes t a)"
  "rb_sentinel (set_key x k (zero_node x t)) = rb_sentinel t" "rb_root (set_key x k (zero_node x t)) = rb_root t"
  by (simp_all add: set_key_def zero_node_def upd_node_def)

section \<open>Deleting\<close>

lemma timer_tree_delete:
  assumes t: "timer_tree t T" and a: "a \<in> set_tree T"
  shows "\<exists>t' T'. gfs_rbtree_delete a t = Some t' \<and> timer_tree t' T' \<and> set_tree T' = set_tree T - {a}
    \<and> rb_sentinel t' = rb_sentinel t \<and> (\<forall>b. b \<noteq> a \<longrightarrow> key t' b = key t b) \<and> lft t' a = NULL \<and> rgt t' a = NULL"
proof -
  have rb: "rb_tree t T" "sorted_wrt (timer_less t) (inorder T)" "NULL \<notin> set_tree T"
    using t by (auto simp: timer_tree_def)
  obtain t' T' where d: "gfs_rbtree_delete a t = Some t'" and T': "rb_tree t' T'" "inorder T' = filter (\<lambda>b. b \<noteq> a) (inorder T)"
    and r: "rb_sentinel t' = rb_sentinel t" "\<forall>b. b \<noteq> a \<longrightarrow> key t' b = key t b" "lft t' a = NULL" "rgt t' a = NULL"
    using delete_correct [OF rb(1) a rb(3)] unfolding cut_node_def by blast
  have st: "set_tree T' = set_tree T - {a}" using T'(2) by (metis set_inorder set_minus_filter_out)
  have "sorted_wrt (timer_less t) (inorder T')" unfolding T'(2) by (rule sorted_wrt_filter [OF rb(2)])
  then have "sorted_wrt (timer_less t') (inorder T')"
    by (rule sorted_wrt_mono_rel [rotated]) (use r(2) st in \<open>auto simp: timer_less_def\<close>)
  then have "timer_tree t' T'" using T'(1) st rb(3) by (auto simp: timer_tree_def)
  then show ?thesis using d st r by blast
qed

section \<open>The interface of the timers\<close>

text \<open>The timers \<open>A\<close> are stored.\<close>

definition timers_at :: "'h timers \<Rightarrow> addr set \<Rightarrow> bool" where
  "timers_at ts A \<longleftrightarrow> (\<exists>T. timer_tree (t_tree ts) T \<and> set_tree T = A)"

definition timer_addr :: "'h timers \<Rightarrow> addr \<Rightarrow> bool" where
  "timer_addr ts a \<longleftrightarrow> a \<noteq> NULL \<and> a \<noteq> rb_sentinel (t_tree ts)"

text \<open>
  \<open>due s a\<close> is the expiry time of timer \<open>a\<close>. Adding a timer that was set stores it and leaves the deadlines
  alone; the first timer is one with the least deadline.
\<close>

locale deadlines =
  fixes at :: "'s \<Rightarrow> addr set \<Rightarrow> bool" and ok :: "'s \<Rightarrow> addr \<Rightarrow> bool" and due :: "'s \<Rightarrow> addr \<Rightarrow> u32" and armed :: "'s \<Rightarrow> addr \<Rightarrow> bool"
    and add :: "addr \<Rightarrow> 's \<Rightarrow> (int \<times> 's) option" and first :: "'s \<Rightarrow> addr option"
  assumes add_new: "at s A \<Longrightarrow> a \<notin> A \<Longrightarrow> ok s a \<Longrightarrow> armed s a \<Longrightarrow>
      \<exists>s'. add a s = Some (GFS_OK, s') \<and> at s' (insert a A) \<and> due s' = due s \<and> ok s' = ok s \<and> armed s' = armed s"
    and add_old: "at s A \<Longrightarrow> a \<in> A \<Longrightarrow> armed s a \<Longrightarrow> add a s = Some (GFS_OK, s)"
    and first_least: "at s A \<Longrightarrow> A \<noteq> {} \<Longrightarrow> \<exists>a. first s = Some a \<and> a \<in> A \<and> (\<forall>b \<in> A. due s a \<le> due s b)"
begin

lemma add_at:
  assumes "at s A" and "ok s a" and "armed s a"
  shows "\<exists>s'. add a s = Some (GFS_OK, s') \<and> at s' (insert a A) \<and> due s' = due s"
proof (cases "a \<in> A")
  case True
  then show ?thesis using assms add_old by (auto simp: insert_absorb)
next
  case False
  then show ?thesis using add_new [OF assms(1) _ assms(2,3)] by blast
qed

text \<open>A timer that expires before all others is the first one after it was added.\<close>

lemma add_first:
  assumes "at s A" and "ok s a" and "armed s a" and "\<forall>b \<in> A. b \<noteq> a \<longrightarrow> due s a < due s b"
  shows "\<exists>s'. add a s = Some (GFS_OK, s') \<and> at s' (insert a A) \<and> first s' = Some a"
proof -
  obtain s' where s': "add a s = Some (GFS_OK, s')" "at s' (insert a A)" "due s' = due s" using add_at [OF assms(1-3)] by blast
  obtain x where x: "first s' = Some x" "x \<in> insert a A" "due s x \<le> due s a" using first_least [OF s'(2)] s'(3) by auto
  then have "x = a" using assms(4) by force
  then show ?thesis using s' x by blast
qed

end

definition first_timer :: "'h timers \<Rightarrow> addr option" where
  "first_timer ts = gfs_rbtree_min (t_tree ts) (rb_root (t_tree ts))"

interpretation dl: deadlines timers_at timer_addr "\<lambda>ts. key (t_tree ts)" "\<lambda>ts a. t_times ts a \<noteq> 0" gfs_timer_add first_timer
proof (unfold_locales, goal_cases)
  case (1 s A a)
  then obtain T where T: "timer_tree (t_tree s) T" "set_tree T = A" by (auto simp: timers_at_def)
  obtain t' T' where "gfs_rbtree_insert gfs_rbtree_insert_timer_value a (t_tree s) = Some t'" "timer_tree t' T'"
      "set_tree T' = insert a A" "rb_frame (insert a A) (t_tree s) t'"
    using timer_tree_insert [OF T(1), of a] T(2) 1(2,3) by (auto simp: timer_addr_def)
  then show ?case
    using 1 T lookup_timer [OF T(1), of a]
    by (auto simp: gfs_timer_add_def timers_at_def timer_addr_def rb_frame_def fun_eq_iff GFS_EVENT_NOTIMER_ERR_def GFS_OK_def)
next
  case (2 s A a)
  then obtain T where T: "timer_tree (t_tree s) T" "set_tree T = A" by (auto simp: timers_at_def)
  then have "a \<noteq> NULL" using 2(2) by (metis timer_tree_def)
  then show ?case using 2 T lookup_timer [OF T(1), of a]
    by (simp add: gfs_timer_add_def GFS_EVENT_NOTIMER_ERR_def GFS_OK_def)
next
  case (3 s A)
  then obtain T where "timer_tree (t_tree s) T" "set_tree T = A" by (auto simp: timers_at_def)
  moreover then have "T \<noteq> Leaf" using 3 by auto
  ultimately show ?case using timer_min by (auto simp: first_timer_def)
qed

text \<open>Arming a timer that is not stored.\<close>

lemma timer_set_at:
  assumes "timers_at ts A" and "a \<notin> A" and "timer_addr ts a" and "runs \<noteq> 0" and "10 \<le> msecs"
  shows "timers_at (gfs_timer_set a msecs runs h x now ts) A" and "timer_addr (gfs_timer_set a msecs runs h x now ts) = timer_addr ts"
    and "t_times (gfs_timer_set a msecs runs h x now ts) a \<noteq> 0"
    and "key (t_tree (gfs_timer_set a msecs runs h x now ts)) a = ucast now + of_int (msecs div 10)"
    and "b \<noteq> a \<Longrightarrow> key (t_tree (gfs_timer_set a msecs runs h x now ts)) b = key (t_tree ts) b"
proof -
  obtain T where T: "timer_tree (t_tree ts) T" "set_tree T = A" using assms(1) by (auto simp: timers_at_def)
  have a: "a \<noteq> NULL" "a \<noteq> rb_sentinel (t_tree ts)" using assms(3) by (auto simp: timer_addr_def)
  have "timer_tree (set_key a k (zero_node a (t_tree ts))) T" for k
    by (rule timer_tree_frame [OF T(1), of a]) (use assms(2) T a in \<open>simp_all add: zero_node_fields set_key_def zero_node_def upd_node_def\<close>)
  then show "timers_at (gfs_timer_set a msecs runs h x now ts) A"
    using T a assms(4,5) by (auto simp: timers_at_def gfs_timer_set_def Let_def)
  show "timer_addr (gfs_timer_set a msecs runs h x now ts) = timer_addr ts"
    by (auto simp: timer_addr_def fun_eq_iff gfs_timer_set_def Let_def zero_node_fields)
qed (use assms in \<open>auto simp: gfs_timer_set_def timer_addr_def Let_def zero_node_fields\<close>)

text \<open>Deleting a timer takes it out of the tree and disarms it.\<close>

lemma timer_del_at:
  assumes "timers_at ts A" and "a \<noteq> NULL"
  shows "\<exists>ts'. gfs_timer_del a ts = Some ts' \<and> timers_at ts' (A - {a}) \<and> timer_addr ts' = timer_addr ts
    \<and> t_times ts' = (t_times ts)(a := 0) \<and> (\<forall>b. b \<noteq> a \<longrightarrow> key (t_tree ts') b = key (t_tree ts) b)
    \<and> (a \<in> A \<longrightarrow> lft (t_tree ts') a = NULL \<and> rgt (t_tree ts') a = NULL)"
proof -
  obtain T where T: "timer_tree (t_tree ts) T" "set_tree T = A" using assms(1) by (auto simp: timers_at_def)
  show ?thesis
  proof (cases "a \<in> A")
    case True
    then obtain t' T' where "gfs_rbtree_delete a (t_tree ts) = Some t'" "timer_tree t' T'" "set_tree T' = A - {a}"
        "rb_sentinel t' = rb_sentinel (t_tree ts)" "\<forall>b. b \<noteq> a \<longrightarrow> key t' b = key (t_tree ts) b" "lft t' a = NULL" "rgt t' a = NULL"
      using timer_tree_delete [OF T(1), of a] T(2) by blast
    then show ?thesis using assms(2) lookup_timer [OF T(1), of a] T(2) True
      by (auto simp: gfs_timer_del_def timers_at_def timer_addr_def fun_eq_iff)
  next
    case False
    then show ?thesis using assms lookup_timer [OF T(1), of a] T
      by (auto simp: gfs_timer_del_def timers_at_def timer_addr_def fun_eq_iff GFS_OK_def GFS_EVENT_NOTIMER_ERR_def)
  qed
qed

text \<open>A node that was deleted once cannot be deleted again: its links are null.\<close>

lemma delete_twice:
  assumes "lft t a = NULL" and "rgt t a = NULL" and "rb_sentinel t \<noteq> NULL"
  shows "gfs_rbtree_delete a t = None"
  using assms by (simp add: gfs_rbtree_delete_def delete_subst_def gfs_rbtree_min.simps [of t NULL])

lemma timers_at_create: "timers_at (gfs_timer_loop_create ts) {}"
  unfolding timers_at_def gfs_timer_loop_create_def
  by (rule exI [of _ Leaf]) (simp add: timer_tree_def rb_tree_init)

section \<open>Running the timers\<close>

text \<open>
  The loop of \<open>gfs_timer_loop_run\<close> for handlers that return and leave the timers alone: each expired timer
  is armed again for \<open>secs\<close> ticks after now, and the loop ends as no expired timer is left.
\<close>

lemma timers_finite: "timers_at ts A \<Longrightarrow> finite A"
  by (auto simp: timers_at_def)

lemma timer_rearm:
  assumes ts: "timers_at ts A" and a: "a \<in> A" and ok: "rb_sentinel (t_tree ts) \<noteq> a"
  shows "\<exists>t1 t2. gfs_rbtree_delete a (t_tree ts) = Some t1
    \<and> gfs_rbtree_insert gfs_rbtree_insert_timer_value a (set_key a k t1) = Some t2
    \<and> (\<exists>T. timer_tree t2 T \<and> set_tree T = A) \<and> rb_sentinel t2 = rb_sentinel (t_tree ts)
    \<and> (\<forall>b. key t2 b = (if b = a then k else key (t_tree ts) b))"
proof -
  obtain T where T: "timer_tree (t_tree ts) T" "set_tree T = A" using ts by (auto simp: timers_at_def)
  obtain t1 T1 where d: "gfs_rbtree_delete a (t_tree ts) = Some t1" "timer_tree t1 T1" "set_tree T1 = A - {a}"
      "rb_sentinel t1 = rb_sentinel (t_tree ts)" "\<And>b. b \<noteq> a \<Longrightarrow> key t1 b = key (t_tree ts) b"
    using timer_tree_delete [OF T(1), of a] T(2) a by blast
  have "timer_tree (set_key a k t1) T1"
    by (rule timer_tree_frame [OF d(2), of a]) (use d(3,4) ok in \<open>auto simp: set_key_def upd_node_def\<close>)
  moreover have "a \<noteq> NULL" using T a by (metis timer_tree_def)
  ultimately obtain t2 T2 where "gfs_rbtree_insert gfs_rbtree_insert_timer_value a (set_key a k t1) = Some t2" "timer_tree t2 T2"
      "set_tree T2 = insert a (A - {a})" "rb_frame (insert a (A - {a})) (set_key a k t1) t2"
    using timer_tree_insert [of "set_key a k t1" T1 a] d(3,4) ok by auto
  then show ?thesis using d a by (auto simp: rb_frame_def insert_absorb)
qed

definition armed_timer :: "'h timers \<Rightarrow> u32 \<Rightarrow> addr \<Rightarrow> bool" where
  "armed_timer ts now a \<longleftrightarrow> t_times ts a < 0 \<and> t_handle ts a \<noteq> None \<and> 0 < t_secs ts a \<and> t_secs ts a + uint now < 2 ^ 32"

lemma rearm_later: "0 < k \<Longrightarrow> k + uint now < 2 ^ 32 \<Longrightarrow> (now :: u32) < now + of_int k"
proof -
  assume k: "0 < k" "k + uint now < 2 ^ 32"
  then have "k < 2 ^ 32" using uint_ge_0 [of now] by linarith
  then have "uint (of_int k :: u32) = k" using k(1) by (simp add: uint_word_of_int)
  then have "uint (now + of_int k) = uint now + k" using k by (simp add: uint_word_ariths)
  then show "now < now + of_int k" using k(1) by (simp add: word_less_def)
qed

lemma timer_loop_step:
  assumes "rb_root (t_tree (get s)) \<noteq> rb_sentinel (t_tree (get s))"
    and "gfs_rbtree_min (t_tree (get s)) (rb_root (t_tree (get s))) = Some x" and "key (t_tree (get s)) x \<le> now"
    and "t_times (get s) x \<noteq> 0" and "t_handle (get s) x = Some h"
  shows "gfs_timer_loop_run get put call now s = do {
      s \<leftarrow> call h (t_param (get s) x) s;
      t \<leftarrow> gfs_rbtree_delete x (t_tree (get s));
      let s = put ((get s)\<lparr>t_tree := t\<rparr>) s;
      if t_times (get s) x = 1 then gfs_timer_loop_run get put call now s
      else do {
        let ts = get s;
        let ts = ts\<lparr>t_times := (t_times ts)(x := (if t_times ts x > 0 then t_times ts x - 1 else t_times ts x)),
                    t_now := (t_now ts)(x := now),
                    t_tree := set_key x (now + of_int (t_secs ts x)) (t_tree ts)\<rparr>;
        t \<leftarrow> gfs_rbtree_insert gfs_rbtree_insert_timer_value x (t_tree ts);
        gfs_timer_loop_run get put call now (put (ts\<lparr>t_tree := t\<rparr>) s)
      }
    }"
  by (subst gfs_timer_loop_run.simps) (simp only: assms if_False if_True Option.bind.bind_lunit not_False_eq_True)

lemma timer_loop_rearms:
  assumes get: "\<And>ts s. get (put ts s) = ts" and put: "\<And>ts ts' s. put ts (put ts' s) = put ts s" "\<And>s. put (get s) s = s"
    and call: "\<And>h a ts. P h a \<Longrightarrow> call h a (put ts s0) = Some (put ts s0)"
  shows "timers_at ts A \<Longrightarrow> (\<forall>a \<in> A. armed_timer ts now a \<and> timer_addr ts a \<and> (key (t_tree ts) a \<le> now \<longrightarrow> P (the (t_handle ts a)) (t_param ts a)))
    \<Longrightarrow> \<exists>ts'. gfs_timer_loop_run get put call now (put ts s0) = Some (put ts' s0) \<and> timers_at ts' A
      \<and> (\<forall>a \<in> A. key (t_tree ts') a = (if key (t_tree ts) a \<le> now then now + of_int (t_secs ts a) else key (t_tree ts) a))"
proof (induction "card {a \<in> A. key (t_tree ts) a \<le> now}" arbitrary: ts rule: less_induct)
  case less
  show ?case
  proof (cases "A = {}")
    case True
    then obtain T where "timer_tree (t_tree ts) T" "set_tree T = {}" using less.prems(1) by (auto simp: timers_at_def)
    then have "rb_root (t_tree ts) = rb_sentinel (t_tree ts)"
      by (cases T) (auto simp: timer_tree_def rb_tree_def rbt_holds_def)
    then show ?thesis using True less.prems by (subst gfs_timer_loop_run.simps) (auto simp: get)
  next
    case False
    obtain T where T: "timer_tree (t_tree ts) T" "set_tree T = A" using less.prems(1) by (auto simp: timers_at_def)
    then have "T \<noteq> Leaf" using False by auto
    then have ne: "rb_root (t_tree ts) \<noteq> rb_sentinel (t_tree ts)" using timer_min [OF T(1)] by blast
    obtain x where x: "gfs_rbtree_min (t_tree ts) (rb_root (t_tree ts)) = Some x" "x \<in> A" "\<forall>b \<in> A. key (t_tree ts) x \<le> key (t_tree ts) b"
      using dl.first_least [OF less.prems(1) False] by (auto simp: first_timer_def)
    show ?thesis
    proof (cases "key (t_tree ts) x \<le> now")
      case False
      then have "\<forall>a \<in> A. \<not> key (t_tree ts) a \<le> now" using x(3) by force
      then show ?thesis using ne x False less.prems(1) by (subst gfs_timer_loop_run.simps) (auto simp: get)
    next
      case True
      have arm: "armed_timer ts now x" "timer_addr ts x" "P (the (t_handle ts x)) (t_param ts x)" using less.prems(2) x(2) True by auto
      then obtain h where h: "t_handle ts x = Some h" "call h (t_param ts x) (put ts s0) = Some (put ts s0)"
        using call by (auto simp: armed_timer_def)
      let ?k = "now + of_int (t_secs ts x)"
      obtain t1 t2 where d: "gfs_rbtree_delete x (t_tree ts) = Some t1"
          "gfs_rbtree_insert gfs_rbtree_insert_timer_value x (set_key x ?k t1) = Some t2"
          "\<exists>T. timer_tree t2 T \<and> set_tree T = A" "rb_sentinel t2 = rb_sentinel (t_tree ts)"
          "\<forall>b. key t2 b = (if b = x then ?k else key (t_tree ts) b)"
        using timer_rearm [OF less.prems(1) x(2), of ?k] arm(2) by (auto simp: timer_addr_def)
      let ?ts = "ts\<lparr>t_times := (t_times ts)(x := t_times ts x), t_now := (t_now ts)(x := now), t_tree := t2\<rparr>"
      have later: "now < ?k" using rearm_later arm(1) by (simp add: armed_timer_def)
      have step: "gfs_timer_loop_run get put call now (put ts s0) = gfs_timer_loop_run get put call now (put ?ts s0)"
      proof -
        have "t_times ts x \<noteq> 0" "t_times ts x \<noteq> 1" "\<not> 0 < t_times ts x" using arm(1) by (simp_all add: armed_timer_def)
        then show ?thesis using timer_loop_step [of get "put ts s0" x now h put call] ne x(1) True h d(1,2) by (simp add: get put(1))
      qed
      have "{a \<in> A. key t2 a \<le> now} \<subset> {a \<in> A. key (t_tree ts) a \<le> now}" using d(5) later x(2) True by auto
      then have card: "card {a \<in> A. key (t_tree ?ts) a \<le> now} < card {a \<in> A. key (t_tree ts) a \<le> now}"
        using psubset_card_mono [of "{a \<in> A. key (t_tree ts) a \<le> now}"] timers_finite [OF less.prems(1)] by simp
      have at: "timers_at ?ts A" using d(3) by (simp add: timers_at_def)
      have prems: "\<forall>a \<in> A. armed_timer ?ts now a \<and> timer_addr ?ts a
          \<and> (key (t_tree ?ts) a \<le> now \<longrightarrow> P (the (t_handle ?ts a)) (t_param ?ts a))"
        using less.prems(2) d(4,5) later by (auto simp: armed_timer_def timer_addr_def)
      obtain ts' where "gfs_timer_loop_run get put call now (put ?ts s0) = Some (put ts' s0)" "timers_at ts' A"
          "\<forall>a \<in> A. key (t_tree ts') a = (if key (t_tree ?ts) a \<le> now then now + of_int (t_secs ?ts a) else key (t_tree ?ts) a)"
        using less.hyps [OF card at prems] by blast
      then show ?thesis using step d(5) later True by auto
    qed
  qed
qed

section \<open>Properties\<close>

text \<open>
  C15: a timer that is set for a time before all stored ones, and added, is stored besides the others, and the
  node that \<open>gfs_timer_loop_run\<close> looks at next is that timer; the expiry times of the others are unchanged.
\<close>

theorem timer_add_earliest:
  assumes "timers_at ts A" and "a \<notin> A" and "timer_addr ts a" and "runs \<noteq> 0" and "10 \<le> msecs"
    and "\<forall>b \<in> A. ucast now + of_int (msecs div 10) < key (t_tree ts) b"
  shows "\<exists>ts'. gfs_timer_add a (gfs_timer_set a msecs runs h x now ts) = Some (GFS_OK, ts') \<and> timers_at ts' (insert a A)
    \<and> gfs_rbtree_min (t_tree ts') (rb_root (t_tree ts')) = Some a"
proof -
  note st = timer_set_at [OF assms(1-5), where h = h and x = x and now = now]
  have "\<forall>b \<in> A. b \<noteq> a \<longrightarrow> key (t_tree (gfs_timer_set a msecs runs h x now ts)) a < key (t_tree (gfs_timer_set a msecs runs h x now ts)) b"
    using st(4,5) assms(6) by simp
  then show ?thesis
    using dl.add_first [OF st(1) _ st(3)] st(2) assms(3) by (simp add: first_timer_def)
qed

definition sample_timers :: "unit timers" where
  "sample_timers = gfs_timer_loop_create \<lparr>t_tree = sample_tree, t_secs = (\<lambda>_. 0), t_times = (\<lambda>_. 0), t_now = (\<lambda>_. 0),
     t_handle = (\<lambda>_. None), t_param = (\<lambda>_. 0)\<rparr>"

theorem timer_add_earliest_witness:
  "\<exists>ts'. gfs_timer_add 7 (gfs_timer_set 7 10000 (-1) () 7 1000000 sample_timers) = Some (GFS_OK, ts')
    \<and> gfs_rbtree_min (t_tree ts') (rb_root (t_tree ts')) = Some 7"
proof -
  have "timer_addr sample_timers 7"
    by (simp add: timer_addr_def sample_timers_def gfs_timer_loop_create_def gfs_rbtree_init_def timer_sentinel_def)
  then show ?thesis
    using timer_add_earliest [OF timers_at_create [of "\<lparr>t_tree = sample_tree, t_secs = (\<lambda>_. 0), t_times = (\<lambda>_. 0), t_now = (\<lambda>_. 0),
      t_handle = (\<lambda>_. None), t_param = (\<lambda>_. 0)\<rparr>"], of 7 "-1" 10000 1000000 "()" 7]
    by (auto simp: sample_timers_def)
qed



end
