(* ===== verification/Net_pool.thy ===== *)
theory Net_pool
  imports Server Timer_Index
begin

text \<open>
  The pool of connections: which connections are free and which are in use, as the two queues of
  \<open>gfs_net_pool_t\<close> have them. Creating the pool puts every connection on the free list, taking one moves the
  first free connection to the used list and arms its timer, closing one moves it back.
\<close>

section \<open>The two lists\<close>

definition pool_lists :: "'w ns \<Rightarrow> addr list \<Rightarrow> addr list \<Rightarrow> bool" where
  "pool_lists s fs us \<longleftrightarrow> queue_at (n_links s) free_list fs \<and> queue_at (n_links s) used_list us
     \<and> set (free_list # fs) \<inter> set (used_list # us) = {}"

lemma net_pool_loop_lists:
  "pool_lists s (map net_addr [0..<i]) [] \<Longrightarrow>
   pool_lists (net_pool_loop i k s) (map net_addr [0..<i + k]) [] \<and> tloop (net_pool_loop i k s) = tloop s
   \<and> (\<forall>j < i. nets (net_pool_loop i k s) (net_addr j) = nets s (net_addr j))
   \<and> (\<forall>j \<in> {i..<i + k}. nets (net_pool_loop i k s) (net_addr j) = net_create (nets s (net_addr j)))"
proof (induction k arbitrary: i s)
  case 0
  then show ?case by simp
next
  case (Suc k)
  let ?s = "(upd_net (net_addr i) net_create s)\<lparr>n_links := gfs_queue_insert_tail free_list (net_addr i) (n_links s)\<rparr>"
  have l: "n_links (upd_net c f s) = n_links s" "tloop (upd_net c f s) = tloop s" for c f by (simp_all add: upd_net_def)
  have q: "queue_at (n_links s) free_list (map net_addr [0..<i])" "queue_at (n_links s) used_list []"
    using Suc.prems by (auto simp: pool_lists_def)
  have "queue_at (n_links ?s) free_list (map net_addr [0..<Suc i])"
    using gq.at_ins_tail [OF q(1), of "net_addr i"] by (auto simp: net_addr_def free_list_def)
  moreover have "queue_at (n_links ?s) used_list []"
    using gq.frame_ins_tail [OF q(2,1), of "net_addr i"] by (simp add: net_addr_def free_list_def used_list_def image_iff)
  ultimately have "pool_lists ?s (map net_addr [0..<Suc i]) []"
    by (auto simp: pool_lists_def net_addr_def free_list_def used_list_def)
  from Suc.IH [OF this] show ?case
    by (auto simp: l upd_net_def net_addr_def) (metis Suc_leI atLeastLessThan_iff le_less not_less_eq)
qed

lemma pool_create_lists:
  "pool_lists (gfs_net_pool_create num s) (map net_addr [0..<unat num]) [] \<and> tloop (gfs_net_pool_create num s) = tloop s
   \<and> (\<forall>j < unat num. nets (gfs_net_pool_create num s) (net_addr j) = net_create (nets s (net_addr j)))"
proof -
  let ?s = "s\<lparr>net_num := num, used_num := 0, free_num := num, n_links := gfs_queue_init used_list (gfs_queue_init free_list (n_links s))\<rparr>"
  have "pool_lists ?s (map net_addr [0..<0]) []"
    by (simp add: pool_lists_def queue_at_def gfs_queue_init_def free_list_def used_list_def)
  from net_pool_loop_lists [OF this, of "unat num"] show ?thesis by (auto simp: gfs_net_pool_create_def)
qed

text \<open>Taking a connection.\<close>

lemma node_get_empty: "pool_lists s [] us \<Longrightarrow> gfs_net_node_get E fd s = Some (NULL, s)"
  using queue_at_empty by (auto simp: pool_lists_def gfs_net_node_get_def)

lemma node_get_first:
  assumes l: "pool_lists s (c # fs) us" and t: "timers_at (tloop s) A" "c \<notin> A" "timer_addr (tloop s) c"
  shows "\<exists>s'. gfs_net_node_get E fd s = Some (c, s') \<and> pool_lists s' fs (c # us) \<and> timers_at (tloop s') (insert c A)
    \<and> used_num s' = used_num s + 1 \<and> free_num s' = free_num s - 1 \<and> n_fd (nets s' c) = fd \<and> n_user (nets s' c) = zero_user
    \<and> n_t_end (nets s' c) = os_mstime E (world s) + GFS_CONN_TIMEOUT_MS \<and> (\<forall>a. a \<noteq> c \<longrightarrow> nets s' a = nets s a)"
proof -
  have q: "queue_at (n_links s) free_list ([] @ c # fs)" "queue_at (n_links s) used_list us"
      "set (used_list # us) \<inter> set (free_list # [] @ c # fs) = {}"
    using l by (auto simp: pool_lists_def)
  have c: "q_next (n_links s) free_list = c" "\<not> gfs_queue_empty (n_links s) free_list"
    using queue_at_head [OF q(1)] queue_at_empty [OF q(1)] by auto
  note mv = gq.move_to_head [OF q]
  define ts where "ts = gfs_timer_set c 10000 (-1) gfs_net_timer c (os_mstime E (world s)) (tloop s)"
  note st = timer_set_at [OF t, where runs = "-1" and msecs = 10000 and h = gfs_net_timer and x = c and now = "os_mstime E (world s)", folded ts_def, simplified]
  obtain ts' where ts': "gfs_timer_add c ts = Some (GFS_OK, ts')" "timers_at ts' (insert c A)"
    using dl.add_at [OF st(1), of c] st(2,3) t(3) by auto
  have "distinct (free_list # c # fs)" using gq.at_distinct [OF q(1)] by simp
  then have "pool_lists (s\<lparr>n_links := gfs_queue_insert_head used_list c (gfs_queue_remove c (n_links s))\<rparr>) fs (c # us)"
    using mv l by (auto simp: pool_lists_def)
  then show ?thesis
    using c ts' by (simp add: gfs_net_node_get_def Let_def upd_net_def ts_def [symmetric] pool_lists_def)
qed

section \<open>Properties\<close>

text \<open>
  C17: \<open>gfs_net_pool_create\<close> links every connection into the free list, in the order of their creation, and none
  into the used list; each has no socket, an empty memory pool and no handler.
\<close>

theorem net_pool_created:
  "queue_at (n_links (gfs_net_pool_create num s)) free_list (map net_addr [0..<unat num])
   \<and> queue_at (n_links (gfs_net_pool_create num s)) used_list []
   \<and> (\<forall>j. j < unat num \<longrightarrow> n_fd (nets (gfs_net_pool_create num s) (net_addr j)) = -1
        \<and> mp_live (n_pool (nets (gfs_net_pool_create num s) (net_addr j))) = []
        \<and> \<not> n_handle (nets (gfs_net_pool_create num s) (net_addr j)))"
  using pool_create_lists [of num s] by (simp add: pool_lists_def net_create_def)

theorem net_pool_created_witness:
  "\<forall>s :: unit ns. queue_at (n_links (gfs_net_pool_create 2 s)) free_list [10, 11] \<and> n_fd (nets (gfs_net_pool_create 2 s) 11) = -1"
proof
  fix s :: "unit ns"
  show "queue_at (n_links (gfs_net_pool_create 2 s)) free_list [10, 11] \<and> n_fd (nets (gfs_net_pool_create 2 s) 11) = -1"
    using net_pool_created [of 2 s] by (auto simp: net_addr_def upt_rec dest!: spec [of _ 1])
qed



end
