(* ===== verification/Spec2Isabelle.thy ===== *)
theory Spec2Isabelle
  imports Serving Net_pool
begin

text \<open>
  This library is a shallow embedding of the name server of TEFS (\<open>src/nameservice\<close>, C) and the proofs
  of what it does.

  \<^bold>\<open>The program.\<close> The name server is one process with one thread. Data servers log in and send
  heartbeats and notices about their blocks; proxies ask where to upload, where to download, what the
  size of a file is, or that a file be deleted. The metadata is in a MySQL database behind stored
  procedures. The event loop (\<open>event/gfs_event.c\<close>) runs the timers (\<open>event/gfs_timer.c\<close>), then the
  connections in the delay queue, then waits for events. A connection (\<open>net/gfs_net.c\<close>,
  \<open>net/gfs_net_tcp.c\<close>) has a receive and a send buffer of 4096 bytes and a memory pool; its handlers
  (\<open>core/gfs_handle.c\<close>) receive bytes, cut them into packets and pass each packet to \<open>gfs_busi_handle\<close>
  (\<open>busi/gfs_busi.c\<close>), which dispatches on the type, runs the parse, handle and tobuf functions of the
  message (\<open>busi/gfs_busi_*.c\<close>) and sends the response. The directory of data servers
  (\<open>net/gfs_net_map.c\<close>) is a red-black tree (\<open>core/gfs_rbtree.c\<close>) and a queue (\<open>core/gfs_queue.h\<close>) over
  the same nodes. A timer runs the replication job (\<open>busi/gfs_busi_notice.c\<close>) every five minutes.

  \<^bold>\<open>The theories.\<close> Each holds the definitions of its part in the order of the code, then the lemmas.
  \<^item> \<open>Prelude\<close>: byte order, reading words from memory, decimal printing and reading, lemmas on lists,
    words and options. \<open>Config\<close>: the constants of \<open>core/gfs_config.h\<close> and \<open>sql/gfs_sql.h\<close>.
  \<^item> \<open>Tools\<close> (\<open>core/gfs_tools.c\<close>): hexadecimal and URL conversion with their round trips, key/value search.
  \<^item> \<open>Queue\<close> (\<open>core/gfs_queue.h\<close>, \<open>.c\<close>): a store of \<open>prev\<close> and \<open>next\<close> links; \<open>queue_at s h xs\<close> says that
    the queue with head \<open>h\<close> consists of the nodes \<open>xs\<close>; the locale \<open>queue_store\<close> is the interface its
    clients use.
  \<^item> \<open>Rbtree\<close> (\<open>core/gfs_rbtree.h\<close>, \<open>.c\<close>): a store of nodes with every operation including deletion;
    \<open>Rbtree_Shape\<close> relates stores to trees of addresses and zippers, \<open>Rbtree_Insert\<close> proves that the
    rebalancing loop ends and restores the colour invariants, \<open>Rbtree_Index\<close> adds the key order and has
    the locale \<open>key_index\<close>, the interface of an index from keys to nodes; \<open>Rbtree_Delete\<close> proves deletion
    (the node that takes the place of the deleted one, and the repair loop, which moves the missing black
    level up) and extends the interface to \<open>key_index_del\<close>.
  \<^item> \<open>Net_map\<close> (\<open>net/gfs_net_map.c\<close>): the directory; \<open>map_ok\<close> is its invariant (tree, queue and free list
    partition the nodes) and \<open>map_abs\<close> the finite map it implements.
  \<^item> \<open>Timer\<close>, \<open>Timer_Index\<close> (\<open>event/gfs_timer.c\<close>): the timer tree in the order of expiry time and address,
    with the locale \<open>deadlines\<close>.
  \<^item> \<open>Net_buf\<close> (buffers and \<open>gfs_net_packet_parse_tcp\<close>, \<open>gfs_net_memcopy\<close> of \<open>net/gfs_net.c\<close>).
  \<^item> \<open>Mem_ledger\<close>: the contract of the memory pools (\<open>core/gfs_mem.c\<close>) as a ledger of live blocks.
  \<^item> \<open>Sql\<close> (\<open>sql/gfs_dbpool.c\<close>, \<open>sql/gfs_sql.c\<close>): the connection pool and every statement; \<open>Sql_Pool\<close> has the
    locale \<open>sql_keeps\<close> (an invariant that taking and putting back a connection keeps is kept by every
    statement) and the accounting of the pool.
  \<^item> \<open>Server\<close> (state of the server, \<open>gfs_event_add\<close>, \<open>gfs_event_del\<close>, \<open>net/gfs_net.c\<close>, \<open>net/gfs_net_tcp.c\<close>)
    and \<open>Net_pool\<close> (the pool of connections).
  \<^item> \<open>Busi_types\<close> (\<open>busi/gfs_busi_types.h\<close>, creation and destruction of a request), \<open>Busi_ds\<close> and \<open>Busi_file\<close>
    (the messages), \<open>Handle\<close> (\<open>gfs_busi_handle\<close> and \<open>core/gfs_handle.c\<close>, \<open>gfs_net_tcp_accept\<close>), \<open>Notice\<close>
    (replication job and event loop).
  \<^item> \<open>Sending\<close>, \<open>Replies\<close>, \<open>Serving\<close>: the socket loops end and deliver; every message function leaves a
    response of the announced length and gives back its memory; from these, that a buffer of packets is
    served request by request.

  \<^bold>\<open>How the code is rendered.\<close> A structure is a record and an array of structures a function from
  addresses; links and pointers are addresses (naturals, \<open>NULL\<close> is 0), so that aliasing in the intrusive
  lists and trees is visible. The whole state of the server is the record \<open>ns\<close>. Status codes of the C code
  are values; the \<open>option\<close> around a result is \<open>None\<close> exactly for behaviour the C standard does not define
  (a read or write outside an array, a null dereference, a division by zero, a free of a block that is
  not live), for \<open>exit\<close>, and for a loop that does not end. Loops that may not end are
  \<open>partial_function (option)\<close>, so a theorem with \<open>Some\<close> on its right-hand side also states that the code
  returns; other loops are structural or have a measure. Integers are words of their width where the
  code computes with them; buffer positions are naturals. Structures are read from and written to
  buffers as little-endian bytes, and padding and fresh memory have the unknown content \<open>os_junk\<close>.
  The parse and send handlers call each other; a nested call happens only while the write flag of the
  connection is set, and the outer call clears it before, so two levels (\<open>tcp_parse E 2\<close>) are all there is.
  The nested call through \<open>c->handle\<close> and the direct one are the same function.

  \<^bold>\<open>Parameters.\<close> The operating system is the record \<open>env\<close> (sockets, epoll, clock, content of fresh memory)
  and the MySQL client library the record \<open>mysql\<close>, both functions on an arbitrary type of worlds. Theorems
  that need them to behave say so: \<open>healthy\<close> (a send takes at least one byte and appends what it takes to
  the output), \<open>receives\<close> (a receive delivers between one and the asked number of bytes, and the peer
  pauses at some time), \<open>db_quiet\<close> (the database library does not write to the sockets). Witnesses
  instantiate them with concrete functions.

  \<^bold>\<open>What the theorems show.\<close> The containers refine their abstract counterparts (queue and list, tree and
  ordered set, directory and finite map, timers and earliest deadline) for insertion, deletion, lookup,
  traversal and sorting, with termination. The packet scanner and the buffer copies stay in bounds. The database
  layer keeps its accounting over all call sequences; which statements can overrun their buffers is
  characterised. Requests are answered once, in order and with the right identification. Where the
  code does not do what it means to, the theorem states what it does (a partial packet is dropped, a
  login with a disk of size zero crashes, an unknown type leaks two blocks, a surplus count wraps).

  \<^bold>\<open>Not modelled.\<close> The allocator behind the memory pools (\<open>core/gfs_mem.c\<close>), of which only the contract is
  used: it ends the process when the system has no memory, so that \<open>gfs_mem_malloc\<close> returns \<open>NULL\<close> for
  size zero only, and the branches on a failed allocation of positive size (in \<open>gfs_net_map_init\<close>,
  \<open>gfs_net_pool_create\<close>) are not reached. Creation and destruction of the event loop, destruction of the
  connection pool, \<open>gfs_net_tcp_listen\<close> and \<open>gfs_net_tcp_unliten\<close>; configuration, logging, daemon and main
  (process start-up and I/O). The fields \<open>pnum\<close> and \<open>pindex\<close> of the download response, which the code never
  uses. The proxy (\<open>src/gvfsproxy\<close>, derived from nginx) and the data server (\<open>src/dataserver\<close>, C++ derived
  from the Darwin streaming server).
\<close>

end
